theory Spec2Isabelle
  imports Main "HOL-Library.AList"
begin

section \<open>Data model\<close>

text \<open>
  The plugin works on Sequelize's registry \<^verbatim>\<open>sequelize.models\<close>: an object from model names
  to models, each with an object \<^verbatim>\<open>attributes\<close> from field names to field definitions.
  Both are association lists here, in insertion order (the order \<^verbatim>\<open>_.forIn\<close> and
  \<^verbatim>\<open>_.forEach\<close> visit them); keys are taken to be distinct, and a model's \<^verbatim>\<open>name\<close> is
  its key.

  A reference to a model inside an include or an order clause is either a string (a model
  name, \<open>MName\<close>), a live model object (\<open>MRef\<close>, identified by the name it is registered
  under), or missing (\<open>MNone\<close>).
\<close>

datatype ftype = VIRTUAL | STRING

datatype mref = MName string | MRef string | MNone

text \<open>
  An \<open>item\<close> is any object that carries the properties \<^verbatim>\<open>attributes\<close> and \<^verbatim>\<open>include\<close>:
  a virtual field's definition, an entry of an \<^verbatim>\<open>include\<close> array, or the options of a
  \<^verbatim>\<open>find\<close>. A property that is not set is \<open>None\<close>; an empty array is \<open>Some []\<close>
  (and is truthy, as in JavaScript). \<open>model_of\<close> and \<open>as_of\<close> are used by include
  entries only; \<open>virtual_of\<close> is the list \<^verbatim>\<open>_virtual.get\<close> of a query's options.
  A bare model or model name given as an include entry is the item with only
  \<open>model_of\<close> set, which is what \<^verbatim>\<open>{model: item}\<close> makes of it.
  Attribute entries are strings and \<^verbatim>\<open>attributes\<close>, \<^verbatim>\<open>include\<close> and \<^verbatim>\<open>order\<close> are arrays
  when present: the conversions of single values to arrays and the check that an
  attribute is a string do not arise on these types. Items are values: two fields that
  share one include object in JavaScript hold equal copies here.
\<close>

datatype item = Item (model_of: mref) (as_of: "string option")
  (attributes_of: "string list option") (include_of: "item list option")
  (virtual_of: "string list option")

text \<open>
  An order clause is a raw string, some other non-array object (\<^verbatim>\<open>{raw: ...}\<close>), or an
  array whose elements are strings, objects with a \<^verbatim>\<open>model\<close> (and \<^verbatim>\<open>as\<close>) property (a bare
  model object is the segment with only the model set), or other objects.
\<close>

datatype oelem = OStr string | OSeg mref "string option" | ORaw string

datatype order_clause = RawOrder string | ObjOrder string | ArrOrder "oelem list"

record field =
  ftype :: ftype
  clauses :: item
  order_of :: "order_clause list option"

record model_def =
  attributes :: "(string \<times> field) list"
  associations :: "(string \<times> string option) list"

type_synonym schema = "(string \<times> model_def) list"

type_synonym node = "string \<times> string"

datatype clauseType = Include | Order

datatype error =
    AttributeNonexistentField string string string string
  | OrderNonexistentField string string string string
  | InvalidClause clauseType string string
  | UnknownModel clauseType string string string
  | InvalidAssociation clauseType string string string string "string option"
  | InvalidOrder string string
  | CircularDependency string string
  | CircularDependencyOrder string string
  | NoOrderClause string string string string
  | FieldDoesNotExist string string
  | InvalidOrderClause
  | TypeError

text \<open>
  The code mutates its arguments in place and throws. A function of the model returns
  \<open>Returns x\<close> with the object as left by a normal return, or \<open>Throws e x\<close> with the
  exception and the object as it stands when the exception is thrown.
\<close>

datatype 'a outcome = Throws error 'a | Returns 'a

definition set_model :: "item \<Rightarrow> mref \<Rightarrow> item" where
  "set_model i m = Item m (as_of i) (attributes_of i) (include_of i) (virtual_of i)"

definition set_attributes :: "item \<Rightarrow> string list option \<Rightarrow> item" where
  "set_attributes i a = Item (model_of i) (as_of i) a (include_of i) (virtual_of i)"

definition set_include :: "item \<Rightarrow> item list option \<Rightarrow> item" where
  "set_include i inc = Item (model_of i) (as_of i) (attributes_of i) inc (virtual_of i)"

definition set_virtual :: "item \<Rightarrow> string list option \<Rightarrow> item" where
  "set_virtual i v = Item (model_of i) (as_of i) (attributes_of i) (include_of i) v"

definition lookup_field :: "schema \<Rightarrow> string \<Rightarrow> string \<Rightarrow> field option" where
  "lookup_field s modelName fieldName =
     (case map_of s modelName of
        None \<Rightarrow> None
      | Some m \<Rightarrow> map_of (attributes m) fieldName)"

text \<open>\<^verbatim>\<open>model.attributes[name]\<close> for a model given by reference: reading \<^verbatim>\<open>attributes\<close> of
  a string or of \<^verbatim>\<open>undefined\<close> and indexing the result fails, as does any later use of an
  \<^verbatim>\<open>undefined\<close> field; both are \<open>None\<close>, which every caller turns into \<open>TypeError\<close>.\<close>

definition model_field :: "schema \<Rightarrow> mref \<Rightarrow> string \<Rightarrow> field option" where
  "model_field s m fieldName =
     (case m of MRef n \<Rightarrow> lookup_field s n fieldName | _ \<Rightarrow> None)"

definition set_field :: "schema \<Rightarrow> string \<Rightarrow> string \<Rightarrow> field \<Rightarrow> schema" where
  "set_field s modelName fieldName f =
     (case map_of s modelName of
        None \<Rightarrow> s
      | Some m \<Rightarrow>
          AList.update modelName
            (m\<lparr>attributes := AList.update fieldName f (attributes m)\<rparr>) s)"

text \<open>\<^verbatim>\<open>parent.getAssociation(target, as)\<close>: the registry's answer, read from the list of
  (target, alias) pairs the parent declares.\<close>

definition getAssociation :: "schema \<Rightarrow> string \<Rightarrow> string \<Rightarrow> string option \<Rightarrow> bool" where
  "getAssociation s parent target alias =
     (case map_of s parent of
        None \<Rightarrow> False
      | Some p \<Rightarrow> (target, alias) \<in> set (associations p))"

subsection \<open>Library functions\<close>

text \<open>\<^verbatim>\<open>_.union(a, b)\<close>: the values of \<open>a\<close> then \<open>b\<close>, each kept at its first occurrence.\<close>

fun baseUniq :: "'a list \<Rightarrow> 'a list \<Rightarrow> 'a list" where
  "baseUniq acc [] = acc"
| "baseUniq acc (x # xs) =
     (if x \<in> set acc then baseUniq acc xs else baseUniq (acc @ [x]) xs)"

definition union :: "'a list \<Rightarrow> 'a list \<Rightarrow> 'a list" where
  "union a b = baseUniq [] (a @ b)"

text \<open>\<^verbatim>\<open>array.splice(i, 1)\<close>: removes the element at \<open>i\<close>, nothing when \<open>i\<close> is past the end.\<close>

definition splice :: "nat \<Rightarrow> 'a list \<Rightarrow> 'a list" where
  "splice i xs = take i xs @ drop (Suc i) xs"

text \<open>\<^verbatim>\<open>String.prototype.toUpperCase\<close> on ASCII letters.\<close>

definition toUpperCase :: "string \<Rightarrow> string" where
  "toUpperCase str =
     map (\<lambda>c. case map_of (zip ''abcdefghijklmnopqrstuvwxyz'' ''ABCDEFGHIJKLMNOPQRSTUVWXYZ'') c of
                 None \<Rightarrow> c
               | Some u \<Rightarrow> u) str"

section \<open>mergeClauses\<close>

text \<open>
  \<^verbatim>\<open>mergeClauses(item, fromItem)\<close> of \<^verbatim>\<open>initVirtualFields\<close>. It reads and writes the
  properties \<^verbatim>\<open>attributes\<close> and \<^verbatim>\<open>include\<close> of \<open>item\<close> and nothing else.
  \<open>merge_includes\<close> is the \<^verbatim>\<open>_.forEach(fromItem.include, ...)\<close>, and \<open>merge_include\<close> is
  its body: \<^verbatim>\<open>_.find\<close> for the first entry with the same \<^verbatim>\<open>model\<close> and \<^verbatim>\<open>as\<close>, merged
  into when found, else \<^verbatim>\<open>push\<close>. Lines 272 and 282 store the dependency's own array and
  include objects in the consumer, so that in JavaScript a later merge into the consumer
  reaches the dependency as well; here the consumer receives copies, and the function
  describes what becomes of \<open>item\<close>.
\<close>

definition merge_attributes ::
  "string list option \<Rightarrow> string list option \<Rightarrow> string list option" where
  "merge_attributes attrs fromAttrs =
     (case attrs of
        None \<Rightarrow> None
      | Some a \<Rightarrow> (case fromAttrs of None \<Rightarrow> None | Some b \<Rightarrow> Some (union a b)))"

fun mergeClauses :: "item \<Rightarrow> item \<Rightarrow> item"
and merge_includes :: "item list \<Rightarrow> item list \<Rightarrow> item list"
and merge_include :: "item list \<Rightarrow> item \<Rightarrow> item list"
where
  "mergeClauses (Item m a attrs inc v) (Item fm fa fattrs finc fv) =
     Item m a (merge_attributes attrs fattrs)
       (case finc of
          None \<Rightarrow> inc
        | Some fromIncludes \<Rightarrow>
            (case inc of
               None \<Rightarrow> Some fromIncludes
             | Some includes \<Rightarrow> Some (merge_includes includes fromIncludes)))
       v"
| "merge_includes includes [] = includes"
| "merge_includes includes (fromInclude # rest) =
     merge_includes (merge_include includes fromInclude) rest"
| "merge_include [] fromInclude = [fromInclude]"
| "merge_include (toInclude # includes) fromInclude =
     (if model_of toInclude = model_of fromInclude \<and> as_of toInclude = as_of fromInclude
      then mergeClauses toInclude fromInclude # includes
      else toInclude # merge_include includes fromInclude)"

section \<open>Parsing the definitions of virtual fields\<close>

text \<open>
  \<^verbatim>\<open>parseClause(array, index, clauseType, modelName, fieldName, parent)\<close> rewrites the
  \<^verbatim>\<open>model\<close> property of \<^verbatim>\<open>array[index]\<close>; the function below is given that property and
  \<^verbatim>\<open>as\<close>, and returns the property as it is left. \<^verbatim>\<open>as\<close> is a string when present, so
  the check of line 136 does not arise.
\<close>

definition parseClause ::
  "schema \<Rightarrow> clauseType \<Rightarrow> string \<Rightarrow> string \<Rightarrow> string \<Rightarrow> mref \<Rightarrow> string option
     \<Rightarrow> mref outcome" where
  "parseClause s clauseType modelName fieldName parent m alias =
     (case m of
        MNone \<Rightarrow> Throws (InvalidClause clauseType modelName fieldName) MNone
      | MName n \<Rightarrow>
          (case map_of s n of
             None \<Rightarrow> Throws (UnknownModel clauseType modelName fieldName n) (MName n)
           | Some _ \<Rightarrow>
               if getAssociation s parent n alias then Returns (MRef n)
               else Throws (InvalidAssociation clauseType modelName fieldName parent n alias)
                      (MRef n))
      | MRef n \<Rightarrow>
          if getAssociation s parent n alias then Returns (MRef n)
          else Throws (InvalidAssociation clauseType modelName fieldName parent n alias)
                 (MRef n))"

text \<open>The name under which the model an include points to is registered (after
  \<open>parseClause\<close> it is a live reference).\<close>

definition model_name :: "mref \<Rightarrow> string" where
  "model_name m = (case m of MRef n \<Rightarrow> n | MName n \<Rightarrow> n | MNone \<Rightarrow> [])"

definition check_attributes ::
  "schema \<Rightarrow> string \<Rightarrow> string \<Rightarrow> string \<Rightarrow> string list \<Rightarrow> error option" where
  "check_attributes s fieldName modelName parent attrs =
     (case find (\<lambda>attribute. lookup_field s parent attribute = None) attrs of
        None \<Rightarrow> None
      | Some attribute \<Rightarrow>
          Some (AttributeNonexistentField modelName fieldName parent attribute))"

fun parseInclude :: "schema \<Rightarrow> string \<Rightarrow> string \<Rightarrow> string \<Rightarrow> item \<Rightarrow> item outcome"
and parseInclude_each ::
  "schema \<Rightarrow> string \<Rightarrow> string \<Rightarrow> string \<Rightarrow> item list \<Rightarrow> item list outcome"
where
  "parseInclude s fieldName modelName parent (Item m a attrs inc v) =
     (case attrs of
        None \<Rightarrow>
          (case inc of
             None \<Rightarrow> Returns (Item m a (Some []) None v)
           | Some includes \<Rightarrow>
               (case parseInclude_each s fieldName modelName parent includes of
                  Throws e includes' \<Rightarrow> Throws e (Item m a (Some []) (Some includes') v)
                | Returns includes' \<Rightarrow> Returns (Item m a (Some []) (Some includes') v)))
      | Some as \<Rightarrow>
          (case check_attributes s fieldName modelName parent as of
             Some e \<Rightarrow> Throws e (Item m a attrs inc v)
           | None \<Rightarrow>
               (case inc of
                  None \<Rightarrow> Returns (Item m a attrs None v)
                | Some includes \<Rightarrow>
                    (case parseInclude_each s fieldName modelName parent includes of
                       Throws e includes' \<Rightarrow> Throws e (Item m a attrs (Some includes') v)
                     | Returns includes' \<Rightarrow> Returns (Item m a attrs (Some includes') v)))))"
| "parseInclude_each s fieldName modelName parent [] = Returns []"
| "parseInclude_each s fieldName modelName parent (Item m a attrs inc v # rest) =
     (case parseClause s Include modelName fieldName parent m a of
        Throws e m' \<Rightarrow> Throws e (Item m' a attrs inc v # rest)
      | Returns m' \<Rightarrow>
          (case parseInclude s fieldName modelName (model_name m') (Item m' a attrs inc v) of
             Throws e include \<Rightarrow> Throws e (include # rest)
           | Returns include \<Rightarrow>
               (case parseInclude_each s fieldName modelName parent rest of
                  Throws e rest' \<Rightarrow> Throws e (include # rest')
                | Returns rest' \<Rightarrow> Returns (include # rest'))))"

text \<open>
  \<^verbatim>\<open>parseOrder\<close>, lines 91 to 102: the direction of an order clause given as an array.
  \<^verbatim>\<open>toUpperCase\<close> exists on strings only.
\<close>

definition parseOrder_direction :: "string \<Rightarrow> string \<Rightarrow> oelem list \<Rightarrow> error + oelem list" where
  "parseOrder_direction modelName fieldName order =
     (if length order = 0 then Inl (InvalidOrder modelName fieldName)
      else if length order = 1 then Inr (order @ [OStr ''ASC''])
      else
        (case last order of
           OStr direction \<Rightarrow>
             if toUpperCase direction \<notin> set [''ASC'', ''DESC'']
             then Inr (order @ [OStr ''ASC''])
             else Inr (butlast order @ [OStr (toUpperCase direction)])
         | _ \<Rightarrow> Inl TypeError))"

text \<open>Lines 105 to 109: the models before the attribute, each parsed against the one
  before it; returns the rewritten elements and the last parent.\<close>

fun parseOrder_path ::
  "schema \<Rightarrow> string \<Rightarrow> string \<Rightarrow> string \<Rightarrow> oelem list \<Rightarrow> (oelem list \<times> string) outcome" where
  "parseOrder_path s modelName fieldName parent [] = Returns ([], parent)"
| "parseOrder_path s modelName fieldName parent (ORaw r # rest) =
     Throws (InvalidClause Order modelName fieldName) (ORaw r # rest, parent)"
| "parseOrder_path s modelName fieldName parent (OStr n # rest) =
     (case parseClause s Order modelName fieldName parent (MName n) None of
        Throws e m' \<Rightarrow> Throws e (OSeg m' None # rest, parent)
      | Returns m' \<Rightarrow>
          (case parseOrder_path s modelName fieldName (model_name m') rest of
             Throws e (rest', p) \<Rightarrow> Throws e (OSeg m' None # rest', p)
           | Returns (rest', p) \<Rightarrow> Returns (OSeg m' None # rest', p)))"
| "parseOrder_path s modelName fieldName parent (OSeg m a # rest) =
     (case parseClause s Order modelName fieldName parent m a of
        Throws e m' \<Rightarrow> Throws e (OSeg m' a # rest, parent)
      | Returns m' \<Rightarrow>
          (case parseOrder_path s modelName fieldName (model_name m') rest of
             Throws e (rest', p) \<Rightarrow> Throws e (OSeg m' a # rest', p)
           | Returns (rest', p) \<Rightarrow> Returns (OSeg m' a # rest', p)))"

definition parseOrder_array ::
  "schema \<Rightarrow> string \<Rightarrow> string \<Rightarrow> oelem list \<Rightarrow> order_clause outcome" where
  "parseOrder_array s modelName fieldName order =
     (case parseOrder_direction modelName fieldName order of
        Inl e \<Rightarrow> Throws e (ArrOrder order)
      | Inr order' \<Rightarrow>
          (case parseOrder_path s modelName fieldName modelName
                  (take (length order' - 2) order') of
             Throws e (path, parent) \<Rightarrow>
               Throws e (ArrOrder (path @ drop (length order' - 2) order'))
           | Returns (path, parent) \<Rightarrow>
               (case order' ! (length order' - 2) of
                  OStr attribute \<Rightarrow>
                    if lookup_field s parent attribute = None
                    then Throws (OrderNonexistentField modelName fieldName parent attribute)
                           (ArrOrder (path @ drop (length order' - 2) order'))
                    else Returns (ArrOrder (path @ drop (length order' - 2) order'))
                | _ \<Rightarrow> Returns (ArrOrder (path @ drop (length order' - 2) order')))))"

text \<open>The body of the \<^verbatim>\<open>_.forEach(field.order, ...)\<close> of \<^verbatim>\<open>parseOrder\<close>.\<close>

definition parseOrder_entry ::
  "schema \<Rightarrow> string \<Rightarrow> string \<Rightarrow> order_clause \<Rightarrow> order_clause outcome" where
  "parseOrder_entry s modelName fieldName order =
     (case order of
        RawOrder str \<Rightarrow> Returns (RawOrder str)
      | ObjOrder r \<Rightarrow> parseOrder_array s modelName fieldName [ORaw r, OStr ''ASC'']
      | ArrOrder elems \<Rightarrow> parseOrder_array s modelName fieldName elems)"

fun parseOrder_each ::
  "schema \<Rightarrow> string \<Rightarrow> string \<Rightarrow> order_clause list \<Rightarrow> order_clause list outcome" where
  "parseOrder_each s modelName fieldName [] = Returns []"
| "parseOrder_each s modelName fieldName (order # rest) =
     (case parseOrder_entry s modelName fieldName order of
        Throws e order' \<Rightarrow> Throws e (order' # rest)
      | Returns order' \<Rightarrow>
          (case parseOrder_each s modelName fieldName rest of
             Throws e rest' \<Rightarrow> Throws e (order' # rest')
           | Returns rest' \<Rightarrow> Returns (order' # rest')))"

definition parseOrder ::
  "schema \<Rightarrow> string \<Rightarrow> string \<Rightarrow> order_clause list option
     \<Rightarrow> order_clause list option outcome" where
  "parseOrder s fieldName modelName orders =
     (case orders of
        None \<Rightarrow> Returns None
      | Some os \<Rightarrow>
          (case parseOrder_each s modelName fieldName os of
             Throws e os' \<Rightarrow> Throws e (Some os')
           | Returns os' \<Rightarrow> Returns (Some os')))"

definition parseField :: "schema \<Rightarrow> field \<Rightarrow> string \<Rightarrow> string \<Rightarrow> field outcome" where
  "parseField s f fieldName modelName =
     (case parseInclude s fieldName modelName modelName (clauses f) of
        Throws e c \<Rightarrow> Throws e (f\<lparr>clauses := c\<rparr>)
      | Returns c \<Rightarrow>
          (case parseOrder s fieldName modelName (order_of f) of
             Throws e os \<Rightarrow> Throws e (f\<lparr>clauses := c, order_of := os\<rparr>)
           | Returns os \<Rightarrow> Returns (f\<lparr>clauses := c, order_of := os\<rparr>)))"

text \<open>Lines 20 to 26: every virtual field of every model is parsed, in place. Parsing a
  field changes that field only, so the fields visited are those of the registry as
  it was given.\<close>

fun parse_fields :: "schema \<Rightarrow> string \<Rightarrow> (string \<times> field) list \<Rightarrow> schema outcome" where
  "parse_fields s modelName [] = Returns s"
| "parse_fields s modelName ((fieldName, f) # rest) =
     (if ftype f = VIRTUAL then
        (case parseField s f fieldName modelName of
           Throws e f' \<Rightarrow> Throws e (set_field s modelName fieldName f')
         | Returns f' \<Rightarrow> parse_fields (set_field s modelName fieldName f') modelName rest)
      else parse_fields s modelName rest)"

fun parse_models :: "schema \<Rightarrow> (string \<times> model_def) list \<Rightarrow> schema outcome" where
  "parse_models s [] = Returns s"
| "parse_models s ((modelName, m) # rest) =
     (case parse_fields s modelName (attributes m) of
        Throws e s' \<Rightarrow> Throws e s'
      | Returns s' \<Rightarrow> parse_models s' rest)"

definition parse_all :: "schema \<Rightarrow> schema outcome" where
  "parse_all s = parse_models s s"

section \<open>Topological sorting\<close>

text \<open>
  \<open>gather\<close> runs a function that may fail over a list, stops at the first failure and
  concatenates the results otherwise.
\<close>

fun gather :: "('a \<Rightarrow> 'e + 'b list) \<Rightarrow> 'a list \<Rightarrow> 'e + 'b list" where
  "gather f [] = Inr []"
| "gather f (x # xs) =
     (case f x of
        Inl e \<Rightarrow> Inl e
      | Inr ys \<Rightarrow> (case gather f xs of Inl e \<Rightarrow> Inl e | Inr zs \<Rightarrow> Inr (ys @ zs)))"

lemma gather_cong [fundef_cong]:
  "xs = ys \<Longrightarrow> (\<And>x. x \<in> set ys \<Longrightarrow> f x = g x) \<Longrightarrow> gather f xs = gather g ys"
  by (induction ys arbitrary: xs) (auto split: sum.splits)

definition outgoing :: "('n \<times> 'n) list \<Rightarrow> 'n \<Rightarrow> 'n list" where
  "outgoing edges n = map snd (filter (\<lambda>edge. fst edge = n) edges)"

lemma outgoing_source: "x \<in> set (outgoing edges n) \<Longrightarrow> n \<in> fst ` set edges"
  by (auto simp: outgoing_def)

text \<open>
  Modelled from the spec: the package \<^verbatim>\<open>toposort-extended\<close>, whose \<^verbatim>\<open>dependents\<close> sorts the
  edges [consumer, dependency] and throws \<^verbatim>\<open>toposort.Error\<close> with the property \<^verbatim>\<open>edge\<close>, is
  not among the source files. The specification asks for a topological sort (it names a
  depth-first search that detects a cycle on its recursion stack) that fails with the
  offending entity and field on finding a cycle and otherwise gives a linear order in
  which every dependency precedes its dependents. \<open>visit\<close> is that search: it fails with
  the node it meets again on the stack \<open>predecessors\<close>, and otherwise lists the nodes
  reachable from \<open>n\<close>, every node after the nodes it depends on. \<open>toposort\<close> gives the
  nodes with dependents first; \<open>toposort_dependents\<close> keeps the nodes that depend on
  another one.
\<close>

function visit :: "('n \<times> 'n) list \<Rightarrow> 'n list \<Rightarrow> 'n \<Rightarrow> 'n + 'n list" where
  "visit edges predecessors n =
     (if n \<in> set predecessors then Inl n
      else
        (case gather (visit edges (n # predecessors)) (outgoing edges n) of
           Inl c \<Rightarrow> Inl c
         | Inr below \<Rightarrow> Inr (below @ [n])))"
  by pat_completeness auto
termination
proof (relation "measure (\<lambda>(edges, predecessors, n). card (fst ` set edges - set predecessors))")
  show "wf (measure (\<lambda>(edges :: ('n \<times> 'n) list, predecessors, n).
              card (fst ` set edges - set predecessors)))"
    by simp
next
  fix edges :: "('n \<times> 'n) list" and predecessors n x
  assume fresh: "n \<notin> set predecessors" and child: "x \<in> set (outgoing edges n)"
  have "n \<in> fst ` set edges"
    using child by (rule outgoing_source)
  then have "fst ` set edges - set (n # predecessors) \<subset> fst ` set edges - set predecessors"
    using fresh by auto
  then have "card (fst ` set edges - set (n # predecessors))
               < card (fst ` set edges - set predecessors)"
    by (intro psubset_card_mono) auto
  then show "((edges, n # predecessors, x), (edges, predecessors, n))
               \<in> measure (\<lambda>(edges, predecessors, n). card (fst ` set edges - set predecessors))"
    by simp
qed

declare visit.simps [simp del]

definition uniqueNodes :: "('n \<times> 'n) list \<Rightarrow> 'n list" where
  "uniqueNodes edges = baseUniq [] (concat (map (\<lambda>edge. [fst edge, snd edge]) edges))"

definition toposort :: "('n \<times> 'n) list \<Rightarrow> 'n + 'n list" where
  "toposort edges =
     (case gather (visit edges []) (uniqueNodes edges) of
        Inl c \<Rightarrow> Inl c
      | Inr found \<Rightarrow> Inr (rev (baseUniq [] found)))"

definition toposort_dependents :: "('n \<times> 'n) list \<Rightarrow> 'n + 'n list" where
  "toposort_dependents edges =
     (case toposort edges of
        Inl c \<Rightarrow> Inl c
      | Inr nodes \<Rightarrow> Inr (filter (\<lambda>n. n \<in> fst ` set edges) nodes))"

section \<open>inheritInclude\<close>

text \<open>
  \<^verbatim>\<open>findVirtual(field, thisModel)\<close>, lines 151 to 164: one edge from the virtual field
  \<open>source\<close> for every attribute of the field, or of an include below it, that is a
  virtual field of the model the attribute is read from.
\<close>

fun findVirtual_attributes ::
  "schema \<Rightarrow> node \<Rightarrow> mref \<Rightarrow> string list \<Rightarrow> error + (node \<times> node) list" where
  "findVirtual_attributes s source thisModel [] = Inr []"
| "findVirtual_attributes s source thisModel (thisFieldName # rest) =
     (case model_field s thisModel thisFieldName of
        None \<Rightarrow> Inl TypeError
      | Some referenced \<Rightarrow>
          (case findVirtual_attributes s source thisModel rest of
             Inl e \<Rightarrow> Inl e
           | Inr edges \<Rightarrow>
               Inr (if ftype referenced = VIRTUAL
                    then (source, (model_name thisModel, thisFieldName)) # edges
                    else edges)))"

fun findVirtual :: "schema \<Rightarrow> node \<Rightarrow> item \<Rightarrow> mref \<Rightarrow> error + (node \<times> node) list"
and findVirtual_each :: "schema \<Rightarrow> node \<Rightarrow> item list \<Rightarrow> error + (node \<times> node) list"
where
  "findVirtual s source (Item m a attrs inc v) thisModel =
     (case findVirtual_attributes s source thisModel (case attrs of None \<Rightarrow> [] | Some as \<Rightarrow> as) of
        Inl e \<Rightarrow> Inl e
      | Inr edges \<Rightarrow>
          (case inc of
             None \<Rightarrow> Inr edges
           | Some includes \<Rightarrow>
               (case findVirtual_each s source includes of
                  Inl e \<Rightarrow> Inl e
                | Inr edges' \<Rightarrow> Inr (edges @ edges'))))"
| "findVirtual_each s source [] = Inr []"
| "findVirtual_each s source (include # rest) =
     (case findVirtual s source include (model_of include) of
        Inl e \<Rightarrow> Inl e
      | Inr edges \<Rightarrow>
          (case findVirtual_each s source rest of
             Inl e \<Rightarrow> Inl e
           | Inr edges' \<Rightarrow> Inr (edges @ edges')))"

text \<open>Lines 146 to 166: the edges of all virtual fields of all models.\<close>

definition attribute_dependencies :: "schema \<Rightarrow> error + (node \<times> node) list" where
  "attribute_dependencies s =
     gather (\<lambda>(modelName, m).
        gather (\<lambda>(fieldName, f).
           if ftype f \<noteq> VIRTUAL then Inr []
           else findVirtual s (modelName, fieldName) (clauses f) (MRef modelName))
         (attributes m)) s"

text \<open>
  \<^verbatim>\<open>mergeVirtual(field, model)\<close>, lines 181 to 195. \<open>mergeVirtual_attributes\<close> is its
  \<^verbatim>\<open>for\<close> loop at index \<open>i\<close>: a virtual attribute is spliced out, the index stays, and
  the referenced field is merged in; the length is read again at every round. The loop
  need not end on a registry that is not sorted by dependency, so it is a partial
  function: \<open>None\<close> is a run that does not return. The referenced field is read from the
  registry, which holds the field being rewritten as it was before \<open>mergeVirtual\<close>
  started on it (the two differ only where a field refers to itself).
\<close>

partial_function (option) mergeVirtual_attributes ::
  "schema \<Rightarrow> mref \<Rightarrow> nat \<Rightarrow> item \<Rightarrow> item outcome option" where
  "mergeVirtual_attributes s model i field =
     (case attributes_of field of
        None \<Rightarrow> Some (Throws TypeError field)
      | Some attrs \<Rightarrow>
          if i < length attrs then
            (case model_field s model (attrs ! i) of
               None \<Rightarrow> Some (Throws TypeError field)
             | Some referencedField \<Rightarrow>
                 if ftype referencedField = VIRTUAL
                 then mergeVirtual_attributes s model i
                        (mergeClauses (set_attributes field (Some (splice i attrs)))
                           (clauses referencedField))
                 else mergeVirtual_attributes s model (i + 1) field)
          else Some (Returns field))"

declare mergeVirtual_attributes.simps [code]

text \<open>A \<^verbatim>\<open>_.forEach\<close> whose body rewrites the element it is given: an exception leaves the
  elements before it rewritten and the ones after it untouched.\<close>

fun forEach_items :: "('a \<Rightarrow> 'a outcome option) \<Rightarrow> 'a list \<Rightarrow> 'a list outcome option" where
  "forEach_items f [] = Some (Returns [])"
| "forEach_items f (x # xs) =
     Option.bind (f x) (\<lambda>r. case r of
        Throws e x' \<Rightarrow> Some (Throws e (x' # xs))
      | Returns x' \<Rightarrow> Option.bind (forEach_items f xs) (\<lambda>rs. case rs of
           Throws e xs' \<Rightarrow> Some (Throws e (x' # xs'))
         | Returns xs' \<Rightarrow> Some (Returns (x' # xs'))))"

lemma forEach_items_mono [partial_function_mono]:
  assumes "\<And>x. mono_option (\<lambda>f. B f x)"
  shows "mono_option (\<lambda>f. forEach_items (B f) xs)"
proof (induction xs)
  case Nil
  show ?case by (simp add: option.const_mono)
next
  case (Cons x xs)
  show ?case
    unfolding forEach_items.simps
  proof (rule bind_mono [OF assms])
    fix y :: "'a outcome"
    show "mono_option (\<lambda>f. case y of
        Throws e x' \<Rightarrow> Some (Throws e (x' # xs))
      | Returns x' \<Rightarrow> Option.bind (forEach_items (B f) xs) (\<lambda>rs. case rs of
           Throws e xs' \<Rightarrow> Some (Throws e (x' # xs'))
         | Returns xs' \<Rightarrow> Some (Returns (x' # xs'))))"
      by (cases y) (auto intro!: bind_mono Cons option.const_mono)
  qed
qed

partial_function (option) mergeVirtual :: "schema \<Rightarrow> item \<Rightarrow> mref \<Rightarrow> item outcome option" where
  "mergeVirtual s field model =
     Option.bind (mergeVirtual_attributes s model 0 field) (\<lambda>r. case r of
        Throws e field' \<Rightarrow> Some (Throws e field')
      | Returns field' \<Rightarrow>
          (case include_of field' of
             None \<Rightarrow> Some (Returns field')
           | Some includes \<Rightarrow>
               Option.bind
                 (forEach_items (\<lambda>include. mergeVirtual s include (model_of include)) includes)
                 (\<lambda>rs. case rs of
                    Throws e includes' \<Rightarrow> Some (Throws e (set_include field' (Some includes')))
                  | Returns includes' \<Rightarrow> Some (Returns (set_include field' (Some includes'))))))"

declare mergeVirtual.simps [code]

text \<open>Lines 177 to 196: the \<^verbatim>\<open>_.forEach(dependencies, ...)\<close> over the sorted nodes.\<close>

fun inheritInclude_each :: "schema \<Rightarrow> node list \<Rightarrow> schema outcome option" where
  "inheritInclude_each s [] = Some (Returns s)"
| "inheritInclude_each s (dependent # rest) =
     (case lookup_field s (fst dependent) (snd dependent) of
        None \<Rightarrow> Some (Throws TypeError s)
      | Some f \<Rightarrow>
          Option.bind (mergeVirtual s (clauses f) (MRef (fst dependent))) (\<lambda>r. case r of
             Throws e c \<Rightarrow>
               Some (Throws e (set_field s (fst dependent) (snd dependent) (f\<lparr>clauses := c\<rparr>)))
           | Returns c \<Rightarrow>
               inheritInclude_each
                 (set_field s (fst dependent) (snd dependent) (f\<lparr>clauses := c\<rparr>)) rest))"

definition inheritInclude :: "schema \<Rightarrow> schema outcome option" where
  "inheritInclude s =
     (case attribute_dependencies s of
        Inl e \<Rightarrow> Some (Throws e s)
      | Inr dependencies \<Rightarrow>
          (case toposort_dependents dependencies of
             Inl edge \<Rightarrow> Some (Throws (CircularDependency (fst edge) (snd edge)) s)
           | Inr nodes \<Rightarrow> inheritInclude_each s (rev nodes)))"

section \<open>inheritOrder\<close>

text \<open>
  The model and the field an order clause sorts by, lines 207 to 210 and again 236 to 238:
  \<^verbatim>\<open>order[order.length - 3].model\<close> when the clause has more than two elements, else the
  field's own model, and the field named \<^verbatim>\<open>order[order.length - 2]\<close> there. \<open>None\<close> is
  the \<^verbatim>\<open>TypeError\<close> of reading a property of \<^verbatim>\<open>undefined\<close>. A property name that is not
  a string is converted to one; an index outside the array gives \<^verbatim>\<open>undefined\<close>.
\<close>

definition property_key :: "oelem \<Rightarrow> string" where
  "property_key x = (case x of OStr str \<Rightarrow> str | _ \<Rightarrow> ''[object Object]'')"

definition order_target ::
  "schema \<Rightarrow> string \<Rightarrow> order_clause \<Rightarrow> (mref \<times> string \<times> field) option" where
  "order_target s modelName order =
     (case order of
        ArrOrder elems \<Rightarrow>
          (let n = length elems;
               fromModel = (if n > 2
                            then (case elems ! (n - 3) of OSeg m a \<Rightarrow> m | _ \<Rightarrow> MNone)
                            else MRef modelName);
               fromFieldName = (if n \<ge> 2 then property_key (elems ! (n - 2))
                                else ''undefined'')
           in map_option (\<lambda>f. (fromModel, fromFieldName, f))
                (model_field s fromModel fromFieldName))
      | RawOrder str \<Rightarrow>
          (if length str > 2 then None
           else
             (let fromFieldName = (if length str = 2 then [str ! 0] else ''undefined'')
              in map_option (\<lambda>f. (MRef modelName, fromFieldName, f))
                   (model_field s (MRef modelName) fromFieldName)))
      | ObjOrder r \<Rightarrow>
          map_option (\<lambda>f. (MRef modelName, ''undefined'', f))
            (model_field s (MRef modelName) ''undefined''))"

text \<open>Lines 201 to 218: the edges of the order clauses of all virtual fields.\<close>

definition order_dependencies :: "schema \<Rightarrow> error + (node \<times> node) list" where
  "order_dependencies s =
     gather (\<lambda>(modelName, m).
        gather (\<lambda>(fieldName, f).
           if ftype f \<noteq> VIRTUAL then Inr []
           else
             (case order_of f of
                None \<Rightarrow> Inr []
              | Some orders \<Rightarrow>
                  gather (\<lambda>order.
                     (case order_target s modelName order of
                        None \<Rightarrow> Inl TypeError
                      | Some (orderModel, orderFieldName, orderField) \<Rightarrow>
                          Inr (if ftype orderField = VIRTUAL
                               then [((modelName, fieldName),
                                      (model_name orderModel, orderFieldName))]
                               else []))) orders))
         (attributes m)) s"

text \<open>
  Lines 246 to 252: the clauses that take the place of \<open>order\<close>. \<^verbatim>\<open>order.slice(0, -2)\<close>
  followed by \<^verbatim>\<open>concat(fromOrder)\<close>, which appends the elements of an array and appends any
  other value as one element. On a string both are string operations (the array is
  joined with commas); an object that is not an array has no \<^verbatim>\<open>slice\<close>.
\<close>

definition concat_order :: "oelem list \<Rightarrow> order_clause \<Rightarrow> oelem list" where
  "concat_order orderClauseBase fromOrder =
     (case fromOrder of
        ArrOrder elems \<Rightarrow> orderClauseBase @ elems
      | RawOrder str \<Rightarrow> orderClauseBase @ [OStr str]
      | ObjOrder r \<Rightarrow> orderClauseBase @ [ORaw r])"

fun join :: "string list \<Rightarrow> string" where
  "join [] = []"
| "join [x] = x"
| "join (x # y # ys) = x @ '','' @ join (y # ys)"

definition order_string :: "order_clause \<Rightarrow> string" where
  "order_string fromOrder =
     (case fromOrder of
        ArrOrder elems \<Rightarrow> join (map property_key elems)
      | RawOrder str \<Rightarrow> str
      | ObjOrder r \<Rightarrow> ''[object Object]'')"

definition substitute :: "order_clause \<Rightarrow> order_clause list \<Rightarrow> order_clause list option" where
  "substitute order fromOrders =
     (case order of
        ArrOrder elems \<Rightarrow>
          Some (map (\<lambda>fromOrder.
                  ArrOrder (concat_order (take (length elems - 2) elems) fromOrder)) fromOrders)
      | RawOrder str \<Rightarrow>
          Some (map (\<lambda>fromOrder.
                  RawOrder (take (length str - 2) str @ order_string fromOrder)) fromOrders)
      | ObjOrder r \<Rightarrow> None)"

text \<open>Lines 234 to 255: the \<^verbatim>\<open>for\<close> loop over the order clauses of one field, at index
  \<open>i\<close>. The index moves past the clauses that were inserted.\<close>

function inheritOrder_replace ::
  "schema \<Rightarrow> string \<Rightarrow> string \<Rightarrow> nat \<Rightarrow> order_clause list \<Rightarrow> order_clause list outcome" where
  "inheritOrder_replace s modelName fieldName i orders =
     (if i < length orders then
        (case order_target s modelName (orders ! i) of
           None \<Rightarrow> Throws TypeError orders
         | Some (fromModel, fromFieldName, fromField) \<Rightarrow>
             if ftype fromField \<noteq> VIRTUAL
             then inheritOrder_replace s modelName fieldName (i + 1) orders
             else
               (case order_of fromField of
                  None \<Rightarrow>
                    Throws (NoOrderClause modelName fieldName (model_name fromModel) fromFieldName)
                      orders
                | Some fromOrders \<Rightarrow>
                    if length fromOrders = 0
                    then Throws (NoOrderClause modelName fieldName (model_name fromModel)
                                   fromFieldName) orders
                    else
                      (case substitute (orders ! i) fromOrders of
                         None \<Rightarrow> Throws TypeError (splice i orders)
                       | Some inserted \<Rightarrow>
                           inheritOrder_replace s modelName fieldName (i + length inserted)
                             (take i orders @ inserted @ drop (Suc i) orders))))
      else Returns orders)"
  by pat_completeness auto
termination
  by (relation "measure (\<lambda>(s, modelName, fieldName, i, orders). length orders - i)") auto

declare inheritOrder_replace.simps [simp del]

text \<open>Lines 229 to 256: the \<^verbatim>\<open>_.forEach(dependencies, ...)\<close> over the sorted nodes.\<close>

fun inheritOrder_each :: "schema \<Rightarrow> node list \<Rightarrow> schema outcome" where
  "inheritOrder_each s [] = Returns s"
| "inheritOrder_each s (dependent # rest) =
     (case lookup_field s (fst dependent) (snd dependent) of
        None \<Rightarrow> Throws TypeError s
      | Some f \<Rightarrow>
          (case order_of f of
             None \<Rightarrow> Throws TypeError s
           | Some orders \<Rightarrow>
               (case inheritOrder_replace s (fst dependent) (snd dependent) 0 orders of
                  Throws e orders' \<Rightarrow>
                    Throws e (set_field s (fst dependent) (snd dependent)
                                (f\<lparr>order_of := Some orders'\<rparr>))
                | Returns orders' \<Rightarrow>
                    inheritOrder_each
                      (set_field s (fst dependent) (snd dependent)
                         (f\<lparr>order_of := Some orders'\<rparr>)) rest)))"

definition inheritOrder :: "schema \<Rightarrow> schema outcome" where
  "inheritOrder s =
     (case order_dependencies s of
        Inl e \<Rightarrow> Throws e s
      | Inr dependencies \<Rightarrow>
          (case toposort_dependents dependencies of
             Inl edge \<Rightarrow> Throws (CircularDependencyOrder (fst edge) (snd edge)) s
           | Inr nodes \<Rightarrow> inheritOrder_each s (rev nodes)))"

section \<open>initVirtualFields\<close>

definition initVirtualFields :: "schema \<Rightarrow> schema outcome option" where
  "initVirtualFields s =
     (case parse_all s of
        Throws e s' \<Rightarrow> Some (Throws e s')
      | Returns parsed \<Rightarrow>
          Option.bind (inheritInclude parsed) (\<lambda>r. case r of
             Throws e s' \<Rightarrow> Some (Throws e s')
           | Returns merged \<Rightarrow> Some (inheritOrder merged)))"

section \<open>The beforeFind hook\<close>

text \<open>
  The requirement set of the options of a query or of a field definition: the item with
  its attributes and includes, and the order list beside it.
\<close>

type_synonym requirement_set = "item \<times> order_clause list option"

text \<open>
  Modelled from the spec: \<^verbatim>\<open>mergeClauses(item, fromItem, virtual)\<close> of the module
  \<^verbatim>\<open>./shared\<close>, which the hook imports, is not among the source files. The specification
  has the query expander merge a field's requirement set (attributes, joins, order) into
  the request with the Requirement Merger: attributes by ordered union and joins by
  target and alias, which is \<open>mergeClauses\<close> above, and order by concatenation, the
  dependency's order entries after the consumer's own (\<open>merge_order\<close>; an absent list
  has no entries). An entry of an include array carries no order list here, no function
  of the source files reads one, so the merge into an include has no order list to add
  to. What the flag \<open>virtual\<close> adds is not known and not modelled.
\<close>

definition merge_order ::
  "order_clause list option \<Rightarrow> order_clause list option \<Rightarrow> order_clause list option" where
  "merge_order orders fromOrders =
     (case fromOrders of
        None \<Rightarrow> orders
      | Some theirs \<Rightarrow> (case orders of None \<Rightarrow> Some theirs | Some own \<Rightarrow> Some (own @ theirs)))"

definition shared_mergeClauses ::
  "requirement_set \<Rightarrow> requirement_set \<Rightarrow> bool \<Rightarrow> requirement_set" where
  "shared_mergeClauses item fromItem virtual =
     (mergeClauses (fst item) (fst fromItem), merge_order (snd item) (snd fromItem))"

text \<open>\<^verbatim>\<open>addVirtualFieldOptions\<close>: \<^verbatim>\<open>options._virtual.get\<close> has to exist already.\<close>

definition addVirtualFieldOptions ::
  "requirement_set \<Rightarrow> field \<Rightarrow> string \<Rightarrow> requirement_set outcome" where
  "addVirtualFieldOptions options f fieldName =
     (let options' = shared_mergeClauses options (clauses f, order_of f) True
      in case virtual_of (fst options') of
           None \<Rightarrow> Throws TypeError options'
         | Some got \<Rightarrow>
             Returns (set_virtual (fst options') (Some (got @ [fieldName])), snd options'))"

text \<open>
  \<^verbatim>\<open>replaceVirtualFields\<close>, lines 30 to 44: the \<^verbatim>\<open>for\<close> loop over \<^verbatim>\<open>options.attributes\<close> at
  index \<open>i\<close>. After a virtual field is merged in, \<^verbatim>\<open>splice(i, 1)\<close> is applied to the
  array as the merge left it, and the index stays.
\<close>

partial_function (option) replaceVirtualFields_attributes ::
  "schema \<Rightarrow> mref \<Rightarrow> nat \<Rightarrow> requirement_set \<Rightarrow> requirement_set outcome option" where
  "replaceVirtualFields_attributes s model i options =
     (case attributes_of (fst options) of
        None \<Rightarrow> Some (Throws TypeError options)
      | Some attrs \<Rightarrow>
          if i < length attrs then
            (case model of
               MRef n \<Rightarrow>
                 (case map_of s n of
                    None \<Rightarrow> Some (Throws TypeError options)
                  | Some m \<Rightarrow>
                      (case map_of (attributes m) (attrs ! i) of
                         None \<Rightarrow> Some (Throws (FieldDoesNotExist n (attrs ! i)) options)
                       | Some f \<Rightarrow>
                           if ftype f \<noteq> VIRTUAL
                           then replaceVirtualFields_attributes s model (i + 1) options
                           else
                             (case addVirtualFieldOptions options f (attrs ! i) of
                                Throws e options' \<Rightarrow> Some (Throws e options')
                              | Returns options' \<Rightarrow>
                                  (case attributes_of (fst options') of
                                     None \<Rightarrow> Some (Throws TypeError options')
                                   | Some attrs' \<Rightarrow>
                                       replaceVirtualFields_attributes s model i
                                         (set_attributes (fst options') (Some (splice i attrs')),
                                          snd options')))))
             | _ \<Rightarrow> Some (Throws TypeError options))
          else Some (Returns options))"

declare replaceVirtualFields_attributes.simps [code]

text \<open>Lines 47 to 50: no attributes are given, so every virtual field of the model is
  merged in.\<close>

fun replaceVirtualFields_all ::
  "(string \<times> field) list \<Rightarrow> requirement_set \<Rightarrow> requirement_set outcome" where
  "replaceVirtualFields_all [] options = Returns options"
| "replaceVirtualFields_all ((fieldName, f) # rest) options =
     (if ftype f = VIRTUAL then
        (case addVirtualFieldOptions options f fieldName of
           Throws e options' \<Rightarrow> Throws e options'
         | Returns options' \<Rightarrow> replaceVirtualFields_all rest options')
      else replaceVirtualFields_all rest options)"

definition replaceVirtualFields_own ::
  "schema \<Rightarrow> mref \<Rightarrow> requirement_set \<Rightarrow> requirement_set outcome option" where
  "replaceVirtualFields_own s model options =
     (case attributes_of (fst options) of
        Some attrs \<Rightarrow> replaceVirtualFields_attributes s model 0 options
      | None \<Rightarrow>
          (case model of
             MRef n \<Rightarrow>
               (case map_of s n of
                  None \<Rightarrow> Some (Throws TypeError options)
                | Some m \<Rightarrow> Some (replaceVirtualFields_all (attributes m) options))
           | MName n \<Rightarrow> Some (Returns options)
           | MNone \<Rightarrow> Some (Throws TypeError options)))"

text \<open>\<^verbatim>\<open>replaceVirtualFields(options, model)\<close>: the model's own attributes, then every
  include of the options as they are by then, with the model the include names. An
  include enters with no order list, and what is left of it is the item.\<close>

definition item_outcome :: "requirement_set outcome \<Rightarrow> item outcome" where
  "item_outcome r = (case r of Throws e x \<Rightarrow> Throws e (fst x) | Returns x \<Rightarrow> Returns (fst x))"

partial_function (option) replaceVirtualFields ::
  "schema \<Rightarrow> requirement_set \<Rightarrow> mref \<Rightarrow> requirement_set outcome option" where
  "replaceVirtualFields s options model =
     Option.bind (replaceVirtualFields_own s model options) (\<lambda>r. case r of
        Throws e options' \<Rightarrow> Some (Throws e options')
      | Returns options' \<Rightarrow>
          (case include_of (fst options') of
             None \<Rightarrow> Some (Returns options')
           | Some includes \<Rightarrow>
               Option.bind
                 (forEach_items
                    (\<lambda>include.
                       Option.bind (replaceVirtualFields s (include, None) (model_of include))
                         (\<lambda>ri. Some (item_outcome ri)))
                    includes)
                 (\<lambda>rs. case rs of
                    Throws e includes' \<Rightarrow>
                      Some (Throws e (set_include (fst options') (Some includes'), snd options'))
                  | Returns includes' \<Rightarrow>
                      Some (Returns (set_include (fst options') (Some includes'),
                                     snd options')))))"

declare replaceVirtualFields.simps [code]

text \<open>
  \<^verbatim>\<open>replaceVirtualOrders\<close>, lines 82 to 104: the body of the \<^verbatim>\<open>_.forEach(orders, ...)\<close>.
  Lines 101 to 103 turn a bare model into \<^verbatim>\<open>{model: model}\<close>, which is the same segment
  here.
\<close>

definition isString :: "oelem \<Rightarrow> bool" where
  "isString x = (case x of OStr str \<Rightarrow> True | _ \<Rightarrow> False)"

definition replaceVirtualOrders_entry :: "order_clause \<Rightarrow> error + order_clause" where
  "replaceVirtualOrders_entry order =
     (case order of
        RawOrder str \<Rightarrow> Inr (RawOrder str)
      | ObjOrder r \<Rightarrow> Inr (ArrOrder [ORaw r, OStr ''ASC''])
      | ArrOrder elems \<Rightarrow>
          if length elems = 0 then Inl InvalidOrderClause
          else if length elems = 1 \<or> \<not> isString (elems ! (length elems - 2))
          then Inr (ArrOrder (elems @ [OStr ''ASC'']))
          else
            (case last elems of
               OStr direction \<Rightarrow> Inr (ArrOrder (butlast elems @ [OStr (toUpperCase direction)]))
             | _ \<Rightarrow> Inl TypeError))"

fun replaceVirtualOrders_each :: "order_clause list \<Rightarrow> order_clause list outcome" where
  "replaceVirtualOrders_each [] = Returns []"
| "replaceVirtualOrders_each (order # rest) =
     (case replaceVirtualOrders_entry order of
        Inl e \<Rightarrow> Throws e (order # rest)
      | Inr order' \<Rightarrow>
          (case replaceVirtualOrders_each rest of
             Throws e rest' \<Rightarrow> Throws e (order' # rest')
           | Returns rest' \<Rightarrow> Returns (order' # rest')))"

text \<open>
  \<^verbatim>\<open>mergeOrders(orders, model)\<close> of \<^verbatim>\<open>./shared\<close>, which ends \<^verbatim>\<open>replaceVirtualOrders\<close>, is
  not among the source files; it is the parameter \<open>mergeOrders\<close>.
\<close>

definition replaceVirtualOrders ::
  "(order_clause list \<Rightarrow> mref \<Rightarrow> order_clause list outcome)
     \<Rightarrow> order_clause list option \<Rightarrow> mref \<Rightarrow> order_clause list option outcome" where
  "replaceVirtualOrders mergeOrders orders model =
     (case orders of
        None \<Rightarrow> Returns None
      | Some os \<Rightarrow>
          (case replaceVirtualOrders_each os of
             Throws e os' \<Rightarrow> Throws e (Some os')
           | Returns os' \<Rightarrow>
               (case mergeOrders os' model of
                  Throws e os'' \<Rightarrow> Throws e (Some os'')
                | Returns os'' \<Rightarrow> Returns (Some os''))))"

record options =
  request :: item
  order_by :: "order_clause list option"

text \<open>The hook, called on the model \<open>modelName\<close>; \<open>active\<close> is
  \<^verbatim>\<open>sequelize.options.virtualFields.active\<close>.\<close>

definition beforeFindHook ::
  "bool \<Rightarrow> (order_clause list \<Rightarrow> mref \<Rightarrow> order_clause list outcome) \<Rightarrow> schema \<Rightarrow> string
     \<Rightarrow> options \<Rightarrow> options outcome option" where
  "beforeFindHook active mergeOrders s modelName opts =
     (if \<not> active then Some (Returns opts)
      else
        Option.bind (replaceVirtualFields s (request opts, order_by opts) (MRef modelName))
          (\<lambda>r. case r of
             Throws e left \<Rightarrow>
               Some (Throws e (opts\<lparr>request := fst left, order_by := snd left\<rparr>))
           | Returns merged \<Rightarrow>
               (case replaceVirtualOrders mergeOrders (snd merged) (MRef modelName) of
                  Throws e os \<Rightarrow>
                    Some (Throws e (opts\<lparr>request := fst merged, order_by := os\<rparr>))
                | Returns os \<Rightarrow>
                    Some (Returns (opts\<lparr>request := fst merged, order_by := os\<rparr>)))))"

section \<open>Example registries\<close>

text \<open>A stored field, and a virtual field with the given \<^verbatim>\<open>attributes\<close>, \<^verbatim>\<open>include\<close> and
  \<^verbatim>\<open>order\<close>.\<close>

definition base :: field where
  "base = \<lparr>ftype = STRING, clauses = Item MNone None None None None, order_of = None\<rparr>"

definition virtual_field ::
  "string list option \<Rightarrow> item list option \<Rightarrow> order_clause list option \<Rightarrow> field" where
  "virtual_field attrs inc orders =
     \<lparr>ftype = VIRTUAL, clauses = Item MNone None attrs inc None, order_of = orders\<rparr>"

text \<open>A diamond: the virtual fields \<open>A\<close> and \<open>B\<close> both read the virtual field \<open>C\<close>.
  All definitions are in the form \<open>parseField\<close> leaves them in.\<close>

definition diamond :: schema where
  "diamond =
     [(''T'', \<lparr>attributes =
         [(''c1'', base), (''c2'', base),
          (''C'', virtual_field (Some [''c1'', ''c2'']) None None),
          (''A'', virtual_field (Some [''C'']) None None),
          (''B'', virtual_field (Some [''c2'', ''C'']) None None)],
        associations = []\<rparr>)]"

definition diamond_closed :: schema where
  "diamond_closed =
     [(''T'', \<lparr>attributes =
         [(''c1'', base), (''c2'', base),
          (''C'', virtual_field (Some [''c1'', ''c2'']) None None),
          (''A'', virtual_field (Some [''c1'', ''c2'']) None None),
          (''B'', virtual_field (Some [''c2'', ''c1'']) None None)],
        associations = []\<rparr>)]"

text \<open>A second diamond: \<open>A\<close> and \<open>B\<close> both read the virtual field \<open>C\<close>, and \<open>A\<close>
  names the stored field \<open>n\<close> twice before the virtual fields \<open>V\<close> and \<open>C\<close>; the
  registry as declared (parsing leaves it as it is) and after the closure.\<close>

definition diamond2 :: schema where
  "diamond2 =
     [(''T'', \<lparr>attributes =
         [(''n'', base), (''c1'', base), (''c2'', base),
          (''C'', virtual_field (Some [''c1'', ''c2'']) None None),
          (''V'', virtual_field (Some [''n'']) None None),
          (''A'', virtual_field (Some [''n'', ''n'', ''V'', ''C'']) None None),
          (''B'', virtual_field (Some [''C'']) None None)],
        associations = []\<rparr>)]"

definition diamond2_closed :: schema where
  "diamond2_closed =
     [(''T'', \<lparr>attributes =
         [(''n'', base), (''c1'', base), (''c2'', base),
          (''C'', virtual_field (Some [''c1'', ''c2'']) None None),
          (''V'', virtual_field (Some [''n'']) None None),
          (''A'', virtual_field (Some [''n'', ''C'']) None None),
          (''B'', virtual_field (Some [''c1'', ''c2'']) None None)],
        associations = []\<rparr>)]"

text \<open>The end-to-end scenario: \<open>Task.Label\<close> reads the task's name and the name of the
  associated person; \<open>tasks_closed\<close> is the registry after initialisation.\<close>

definition tasks :: schema where
  "tasks =
     [(''Person'', \<lparr>attributes = [(''name'', base)], associations = [(''Task'', None)]\<rparr>),
      (''Task'', \<lparr>attributes =
         [(''name'', base), (''PersonId'', base),
          (''Label'', virtual_field (Some [''name''])
             (Some [Item (MName ''Person'') None (Some [''name'']) None None]) None)],
        associations = [(''Person'', None)]\<rparr>)]"

definition tasks_closed :: schema where
  "tasks_closed =
     [(''Person'', \<lparr>attributes = [(''name'', base)], associations = [(''Task'', None)]\<rparr>),
      (''Task'', \<lparr>attributes =
         [(''name'', base), (''PersonId'', base),
          (''Label'', virtual_field (Some [''name''])
             (Some [Item (MRef ''Person'') None (Some [''name'']) None None]) None)],
        associations = [(''Person'', None)]\<rparr>)]"

text \<open>A virtual field whose attribute list names a stored field twice before two virtual
  fields, and what the closure leaves.\<close>

definition leak :: schema where
  "leak =
     [(''T'', \<lparr>attributes =
         [(''n'', base),
          (''V'', virtual_field (Some [''n'']) None None),
          (''W'', virtual_field (Some [''n'']) None None),
          (''F'', virtual_field (Some [''n'', ''n'', ''V'', ''W'']) None None)],
        associations = []\<rparr>)]"

definition leak_closed :: schema where
  "leak_closed =
     [(''T'', \<lparr>attributes =
         [(''n'', base),
          (''V'', virtual_field (Some [''n'']) None None),
          (''W'', virtual_field (Some [''n'']) None None),
          (''F'', virtual_field (Some [''n'', ''W'']) None None)],
        associations = []\<rparr>)]"

text \<open>A virtual field with an order of its own that reads another virtual field with an
  order.\<close>

definition ordered :: schema where
  "ordered =
     [(''T'', \<lparr>attributes =
         [(''n'', base),
          (''D'', virtual_field (Some [''n'']) None (Some [ArrOrder [OStr ''n'', OStr ''DESC'']])),
          (''F'', virtual_field (Some [''D'']) None (Some [ArrOrder [OStr ''n'', OStr ''ASC'']]))],
        associations = []\<rparr>)]"

definition ordered_closed :: schema where
  "ordered_closed =
     [(''T'', \<lparr>attributes =
         [(''n'', base),
          (''D'', virtual_field (Some [''n'']) None (Some [ArrOrder [OStr ''n'', OStr ''DESC'']])),
          (''F'', virtual_field (Some [''n'']) None (Some [ArrOrder [OStr ''n'', OStr ''ASC'']]))],
        associations = []\<rparr>)]"

text \<open>The order of \<open>Title\<close> is the virtual field \<open>Label\<close>; the registry as declared, as
  parsed and as closed.\<close>

definition titles :: schema where
  "titles =
     [(''Task'', \<lparr>attributes =
         [(''name'', base),
          (''Label'', virtual_field None None (Some [ArrOrder [OStr ''name'', OStr ''DESC'']])),
          (''Title'', virtual_field None None (Some [ArrOrder [OStr ''Label'']]))],
        associations = []\<rparr>)]"

definition titles_parsed :: schema where
  "titles_parsed =
     [(''Task'', \<lparr>attributes =
         [(''name'', base),
          (''Label'', virtual_field (Some []) None (Some [ArrOrder [OStr ''name'', OStr ''DESC'']])),
          (''Title'', virtual_field (Some []) None (Some [ArrOrder [OStr ''Label'', OStr ''ASC'']]))],
        associations = []\<rparr>)]"

definition titles_closed :: schema where
  "titles_closed =
     [(''Task'', \<lparr>attributes =
         [(''name'', base),
          (''Label'', virtual_field (Some []) None (Some [ArrOrder [OStr ''name'', OStr ''DESC'']])),
          (''Title'', virtual_field (Some []) None (Some [ArrOrder [OStr ''name'', OStr ''DESC'']]))],
        associations = []\<rparr>)]"

text \<open>The same registry with a raw string as the second order clause of \<open>Title\<close>, as
  declared and as parsed.\<close>

definition titles_raw :: schema where
  "titles_raw =
     [(''Task'', \<lparr>attributes =
         [(''name'', base),
          (''Label'', virtual_field None None (Some [ArrOrder [OStr ''name'', OStr ''DESC'']])),
          (''Title'', virtual_field None None
             (Some [ArrOrder [OStr ''Label''], RawOrder ''name DESC'']))],
        associations = []\<rparr>)]"

definition titles_raw_parsed :: schema where
  "titles_raw_parsed =
     [(''Task'', \<lparr>attributes =
         [(''name'', base),
          (''Label'', virtual_field (Some []) None (Some [ArrOrder [OStr ''name'', OStr ''DESC'']])),
          (''Title'', virtual_field (Some []) None
             (Some [ArrOrder [OStr ''Label'', OStr ''ASC''], RawOrder ''name DESC'']))],
        associations = []\<rparr>)]"

text \<open>Two dependents in a chain: \<open>Heading\<close> is ordered by \<open>Title\<close> between two clauses of
  its own, \<open>Title\<close> by \<open>Label\<close>, and \<open>Label\<close> has two order clauses; the registry as
  declared and as closed.\<close>

definition headings :: schema where
  "headings =
     [(''Task'', \<lparr>attributes =
         [(''name'', base), (''id'', base),
          (''Label'', virtual_field None None
              (Some [ArrOrder [OStr ''name'', OStr ''DESC''], ArrOrder [OStr ''id'']])),
          (''Title'', virtual_field None None (Some [ArrOrder [OStr ''Label'']])),
          (''Heading'', virtual_field None None
              (Some [ArrOrder [OStr ''id'', OStr ''desc''], ArrOrder [OStr ''Title''],
                     ArrOrder [OStr ''name'']]))],
        associations = []\<rparr>)]"

definition headings_closed :: schema where
  "headings_closed =
     [(''Task'', \<lparr>attributes =
         [(''name'', base), (''id'', base),
          (''Label'', virtual_field (Some []) None
              (Some [ArrOrder [OStr ''name'', OStr ''DESC''], ArrOrder [OStr ''id'', OStr ''ASC'']])),
          (''Title'', virtual_field (Some []) None
              (Some [ArrOrder [OStr ''name'', OStr ''DESC''], ArrOrder [OStr ''id'', OStr ''ASC'']])),
          (''Heading'', virtual_field (Some []) None
              (Some [ArrOrder [OStr ''id'', OStr ''DESC''],
                     ArrOrder [OStr ''name'', OStr ''DESC''], ArrOrder [OStr ''id'', OStr ''ASC''],
                     ArrOrder [OStr ''name'', OStr ''ASC'']]))],
        associations = []\<rparr>)]"

text \<open>An order clause that reaches a virtual field of another model through a join.\<close>

definition paths :: schema where
  "paths =
     [(''Person'', \<lparr>attributes =
         [(''id'', base), (''name'', base),
          (''Sort'', virtual_field (Some []) None
             (Some [ArrOrder [OStr ''name'', OStr ''DESC''], ArrOrder [OStr ''id'', OStr ''ASC'']]))],
        associations = []\<rparr>),
      (''Task'', \<lparr>attributes =
         [(''name'', base),
          (''ByPerson'', virtual_field (Some []) None
             (Some [ArrOrder [OSeg (MRef ''Person'') None, OStr ''Sort'', OStr ''ASC''],
                    ArrOrder [OStr ''name'', OStr ''ASC'']]))],
        associations = [(''Person'', None)]\<rparr>)]"

text \<open>A valid virtual field followed by one that names a missing attribute, and the
  registry at the moment the exception is thrown.\<close>

definition halfway :: schema where
  "halfway =
     [(''T'', \<lparr>attributes =
         [(''n'', base),
          (''Good'', virtual_field None None (Some [ArrOrder [OStr ''n'']])),
          (''Bad'', virtual_field (Some [''missing'']) None None)],
        associations = []\<rparr>)]"

definition halfway_left :: schema where
  "halfway_left =
     [(''T'', \<lparr>attributes =
         [(''n'', base),
          (''Good'', virtual_field (Some []) None (Some [ArrOrder [OStr ''n'', OStr ''ASC'']])),
          (''Bad'', virtual_field (Some [''missing'']) None None)],
        associations = []\<rparr>)]"

text \<open>Cycles: a field that reads itself, three fields that read one another in a ring,
  and two fields ordered by one another.\<close>

definition selfish :: schema where
  "selfish =
     [(''T'', \<lparr>attributes = [(''n'', base), (''F'', virtual_field (Some [''F'']) None None)],
        associations = []\<rparr>)]"

definition ring :: schema where
  "ring =
     [(''T'', \<lparr>attributes =
         [(''n'', base),
          (''A'', virtual_field (Some [''B'']) None None),
          (''B'', virtual_field (Some [''C'']) None None),
          (''C'', virtual_field (Some [''A'']) None None)],
        associations = []\<rparr>)]"

definition order_ring :: schema where
  "order_ring =
     [(''T'', \<lparr>attributes =
         [(''n'', base),
          (''A'', virtual_field (Some []) None (Some [ArrOrder [OStr ''B'', OStr ''ASC'']])),
          (''B'', virtual_field (Some []) None (Some [ArrOrder [OStr ''A'', OStr ''ASC'']]))],
        associations = []\<rparr>)]"

text \<open>A cycle through joins: \<open>T.A\<close> reads the virtual field \<open>X\<close> of the joined \<open>P\<close>, and
  \<open>P.X\<close> reads the virtual field \<open>A\<close> of the joined \<open>T\<close>; the registry as declared and
  as parsed.\<close>

definition nested_ring :: schema where
  "nested_ring =
     [(''T'', \<lparr>attributes =
         [(''id'', base),
          (''A'', virtual_field None
             (Some [Item (MName ''P'') None (Some [''X'']) None None]) None)],
        associations = [(''P'', None)]\<rparr>),
      (''P'', \<lparr>attributes =
         [(''id'', base),
          (''X'', virtual_field (Some [''id''])
             (Some [Item (MName ''T'') None (Some [''id'', ''A'']) None None]) None)],
        associations = [(''T'', None)]\<rparr>)]"

definition nested_ring_parsed :: schema where
  "nested_ring_parsed =
     [(''T'', \<lparr>attributes =
         [(''id'', base),
          (''A'', virtual_field (Some [])
             (Some [Item (MRef ''P'') None (Some [''X'']) None None]) None)],
        associations = [(''P'', None)]\<rparr>),
      (''P'', \<lparr>attributes =
         [(''id'', base),
          (''X'', virtual_field (Some [''id''])
             (Some [Item (MRef ''T'') None (Some [''id'', ''A'']) None None]) None)],
        associations = [(''T'', None)]\<rparr>)]"

text \<open>
  \<open>A\<close> reads \<open>B\<close> as an attribute and \<open>B\<close> is ordered by \<open>A\<close>: the registry as
  declared, as parsed, after \<open>inheritInclude\<close> and after \<open>inheritOrder\<close>.
\<close>

definition mixed :: schema where
  "mixed =
     [(''T'', \<lparr>attributes =
         [(''n'', base),
          (''A'', virtual_field (Some [''B'']) None (Some [ArrOrder [OStr ''n'']])),
          (''B'', virtual_field None None (Some [ArrOrder [OStr ''A'']]))],
        associations = []\<rparr>)]"

definition mixed_parsed :: schema where
  "mixed_parsed =
     [(''T'', \<lparr>attributes =
         [(''n'', base),
          (''A'', virtual_field (Some [''B'']) None (Some [ArrOrder [OStr ''n'', OStr ''ASC'']])),
          (''B'', virtual_field (Some []) None (Some [ArrOrder [OStr ''A'', OStr ''ASC'']]))],
        associations = []\<rparr>)]"

definition mixed_merged :: schema where
  "mixed_merged =
     [(''T'', \<lparr>attributes =
         [(''n'', base),
          (''A'', virtual_field (Some []) None (Some [ArrOrder [OStr ''n'', OStr ''ASC'']])),
          (''B'', virtual_field (Some []) None (Some [ArrOrder [OStr ''A'', OStr ''ASC'']]))],
        associations = []\<rparr>)]"

definition mixed_closed :: schema where
  "mixed_closed =
     [(''T'', \<lparr>attributes =
         [(''n'', base),
          (''A'', virtual_field (Some []) None (Some [ArrOrder [OStr ''n'', OStr ''ASC'']])),
          (''B'', virtual_field (Some []) None (Some [ArrOrder [OStr ''n'', OStr ''ASC'']]))],
        associations = []\<rparr>)]"

section \<open>Notions used in the statements\<close>

text \<open>The object an outcome carries.\<close>

definition state_of :: "'a outcome \<Rightarrow> 'a" where
  "state_of r = (case r of Throws e x \<Rightarrow> x | Returns x \<Rightarrow> x)"

text \<open>
  The substitution of the order inheritance in the specification's words: a clause whose
  terminal field is a virtual field is replaced by one clause per entry of that field's
  own order list, each with the original clause's leading join path (the clause without
  its field and direction) put before the substituted clause; any other clause stays.
\<close>

definition leading_path :: "order_clause \<Rightarrow> oelem list" where
  "leading_path order =
     (case order of ArrOrder elems \<Rightarrow> take (length elems - 2) elems | _ \<Rightarrow> [])"

definition spec_substitute :: "schema \<Rightarrow> string \<Rightarrow> order_clause \<Rightarrow> order_clause list" where
  "spec_substitute s modelName order =
     (case order_target s modelName order of
        None \<Rightarrow> [order]
      | Some (fromModel, fromFieldName, fromField) \<Rightarrow>
          if ftype fromField = VIRTUAL
          then map (\<lambda>fromOrder. ArrOrder (concat_order (leading_path order) fromOrder))
                 (case order_of fromField of None \<Rightarrow> [] | Some fromOrders \<Rightarrow> fromOrders)
          else [order])"

text \<open>The two errors that report a circular dependency, and an outcome that throws one.\<close>

definition circular :: "error \<Rightarrow> bool" where
  "circular e =
     (case e of
        CircularDependency m f \<Rightarrow> True
      | CircularDependencyOrder m f \<Rightarrow> True
      | _ \<Rightarrow> False)"

definition throws_circular :: "'a outcome \<Rightarrow> bool" where
  "throws_circular r = (case r of Throws e x \<Rightarrow> circular e | Returns x \<Rightarrow> False)"

text \<open>What the order inheritance reads of a registry: the names of the models and
  fields in their order, with the type and the order clauses of every field.\<close>

definition outline :: "schema \<Rightarrow> (string \<times> (string \<times> ftype \<times> order_clause list option) list) list" where
  "outline s = map (\<lambda>(n, m). (n, map (\<lambda>(k, f). (k, ftype f, order_of f)) (attributes m))) s"

text \<open>The edges one order clause contributes, the body of the loop of lines 206 to
  216.\<close>

definition order_edge :: "schema \<Rightarrow> string \<Rightarrow> string \<Rightarrow> order_clause \<Rightarrow> error + (node \<times> node) list" where
  "order_edge s modelName fieldName order =
     (case order_target s modelName order of
        None \<Rightarrow> Inl TypeError
      | Some (orderModel, orderFieldName, orderField) \<Rightarrow>
          Inr (if ftype orderField = VIRTUAL
               then [((modelName, fieldName), (model_name orderModel, orderFieldName))]
               else []))"

text \<open>The entries of an order list; none when the list is absent.\<close>

definition order_entries :: "order_clause list option \<Rightarrow> order_clause list" where
  "order_entries orders = (case orders of None \<Rightarrow> [] | Some os \<Rightarrow> os)"

text \<open>
  The dependency graph in the words of the specification (section 4.2), to be compared
  with the edges \<open>findVirtual\<close> and \<open>inheritOrder\<close> collect. A derived field is a field
  of type \<^verbatim>\<open>VIRTUAL\<close>. \<open>spec_references\<close> lists the derived fields a requirement set
  refers to by an attribute: those named in its own attribute list, read at the entity
  the set belongs to, followed by those of every join below it, at any depth, each read
  at the entity the join targets. \<open>spec_attribute_edges\<close> has one edge from every derived
  field of the registry to each of them.
\<close>

definition is_derived :: "schema \<Rightarrow> mref \<Rightarrow> string \<Rightarrow> bool" where
  "is_derived s entity name =
     (case model_field s entity name of None \<Rightarrow> False | Some f \<Rightarrow> ftype f = VIRTUAL)"

fun spec_references :: "schema \<Rightarrow> mref \<Rightarrow> item \<Rightarrow> node list"
and spec_references_each :: "schema \<Rightarrow> item list \<Rightarrow> node list"
where
  "spec_references s entity (Item m a attrs joins v) =
     map (Pair (model_name entity))
       (filter (is_derived s entity) (case attrs of None \<Rightarrow> [] | Some names \<Rightarrow> names))
     @ (case joins of None \<Rightarrow> [] | Some nested \<Rightarrow> spec_references_each s nested)"
| "spec_references_each s [] = []"
| "spec_references_each s (nested # rest) =
     spec_references s (model_of nested) nested @ spec_references_each s rest"

definition spec_attribute_edges :: "schema \<Rightarrow> (node \<times> node) list" where
  "spec_attribute_edges s =
     concat (map (\<lambda>(modelName, m).
        concat (map (\<lambda>(fieldName, f).
           if ftype f = VIRTUAL
           then map (Pair (modelName, fieldName)) (spec_references s (MRef modelName) (clauses f))
           else []) (attributes m))) s)"

text \<open>
  A structured order clause is an array with a field name before its direction. Its
  terminal is that field, read at the entity of the join just before it, or at the
  entity of the field that carries the clause when there is no join. \<open>spec_order_edges\<close>
  has one edge from a derived field for every order clause of it whose terminal is a
  derived field.
\<close>

definition structured :: "order_clause \<Rightarrow> bool" where
  "structured order =
     (case order of
        ArrOrder elems \<Rightarrow>
          length elems \<ge> 2
          \<and> (case elems ! (length elems - 2) of OStr name \<Rightarrow> True | _ \<Rightarrow> False)
      | _ \<Rightarrow> False)"

definition structured_orders :: "schema \<Rightarrow> bool" where
  "structured_orders s =
     list_all (\<lambda>(modelName, m).
        list_all (\<lambda>(fieldName, f).
           ftype f = VIRTUAL \<longrightarrow>
             (case order_of f of None \<Rightarrow> True | Some orders \<Rightarrow> list_all structured orders))
          (attributes m)) s"

definition spec_terminal :: "string \<Rightarrow> order_clause \<Rightarrow> (mref \<times> string) option" where
  "spec_terminal modelName order =
     (case order of
        ArrOrder elems \<Rightarrow>
          (if length elems < 2 then None
           else
             (case elems ! (length elems - 2) of
                OStr name \<Rightarrow>
                  Some (if length elems = 2 then MRef modelName
                        else (case elems ! (length elems - 3) of
                                OSeg entity alias \<Rightarrow> entity
                              | _ \<Rightarrow> MNone),
                        name)
              | _ \<Rightarrow> None))
      | _ \<Rightarrow> None)"

definition spec_order_edge :: "schema \<Rightarrow> string \<Rightarrow> string \<Rightarrow> order_clause \<Rightarrow> (node \<times> node) list" where
  "spec_order_edge s modelName fieldName order =
     (case spec_terminal modelName order of
        None \<Rightarrow> []
      | Some (entity, name) \<Rightarrow>
          if is_derived s entity name
          then [((modelName, fieldName), (model_name entity, name))]
          else [])"

definition spec_order_edges :: "schema \<Rightarrow> (node \<times> node) list" where
  "spec_order_edges s =
     concat (map (\<lambda>(modelName, m).
        concat (map (\<lambda>(fieldName, f).
           if ftype f = VIRTUAL
           then concat (map (spec_order_edge s modelName fieldName)
                  (case order_of f of None \<Rightarrow> [] | Some orders \<Rightarrow> orders))
           else []) (attributes m))) s)"

text \<open>A registry is a JavaScript object of objects: the names of the models are distinct,
  and so are the names of the fields of a model.\<close>

definition unique_names :: "schema \<Rightarrow> bool" where
  "unique_names s =
     (distinct (map fst s) \<and> list_all (\<lambda>(n, m). distinct (map fst (attributes m))) s)"

text \<open>
  What parsing reads of the registry and leaves as it is: the names of the models and of
  their fields, and the type of every field. \<open>parsed_from s modelName fieldName f got\<close>
  says what has become of the declared field \<open>f\<close>: a virtual field is what \<open>parseField\<close>
  returned for it on a registry of the same names and types, any other field is as
  declared.
\<close>

definition kinds :: "schema \<Rightarrow> (string \<times> (string \<times> ftype) list) list" where
  "kinds s = map (\<lambda>(n, m). (n, map (\<lambda>(k, f). (k, ftype f)) (attributes m))) s"

definition parsed_from :: "schema \<Rightarrow> string \<Rightarrow> string \<Rightarrow> field \<Rightarrow> field option \<Rightarrow> bool" where
  "parsed_from s modelName fieldName f got =
     (if ftype f = VIRTUAL
      then (\<exists>s0 f'. kinds s0 = kinds s \<and> parseField s0 f fieldName modelName = Returns f'
                 \<and> got = Some f')
      else got = Some f)"

section \<open>Properties of the merge\<close>

lemma set_baseUniq: "set (baseUniq acc xs) = set acc \<union> set xs"
  by (induction xs arbitrary: acc) auto

lemma distinct_baseUniq: "distinct acc \<Longrightarrow> distinct (baseUniq acc xs)"
  by (induction xs arbitrary: acc) auto

lemma baseUniq_append: "baseUniq acc (xs @ ys) = baseUniq (baseUniq acc xs) ys"
  by (induction xs arbitrary: acc) auto

lemma baseUniq_split:
  "baseUniq acc xs = acc @ filter (\<lambda>y. y \<notin> set acc) (baseUniq [] xs)"
proof (induction xs arbitrary: acc)
  case Nil
  show ?case by simp
next
  case (Cons x xs)
  have one: "baseUniq [x] xs = [x] @ filter (\<lambda>y. y \<notin> set [x]) (baseUniq [] xs)"
    by (rule Cons.IH)
  show ?case
  proof (cases "x \<in> set acc")
    case True
    have "filter (\<lambda>y. y \<notin> set acc) (baseUniq [x] xs)
            = filter (\<lambda>y. y \<notin> set acc) (baseUniq [] xs)"
      using True by (subst one) (auto intro: filter_cong)
    with True show ?thesis
      using Cons.IH [of acc] by simp
  next
    case False
    have "baseUniq (acc @ [x]) xs
            = (acc @ [x]) @ filter (\<lambda>y. y \<notin> set (acc @ [x])) (baseUniq [] xs)"
      by (rule Cons.IH)
    moreover have "filter (\<lambda>y. y \<notin> set acc) (baseUniq [x] xs)
            = x # filter (\<lambda>y. y \<notin> set (acc @ [x])) (baseUniq [] xs)"
      using False by (subst one) (auto intro: filter_cong)
    ultimately show ?thesis
      using False by simp
  qed
qed

lemma baseUniq_distinct_id: "distinct xs \<Longrightarrow> baseUniq [] xs = xs"
proof -
  have "distinct (acc @ xs) \<Longrightarrow> baseUniq acc xs = acc @ xs" for acc
    by (induction xs arbitrary: acc) auto
  from this [of "[]"] show "distinct xs \<Longrightarrow> baseUniq [] xs = xs" by simp
qed

lemma union_split: "union a b = baseUniq [] a @ filter (\<lambda>y. y \<notin> set a) (baseUniq [] b)"
proof -
  have "union a b = baseUniq (baseUniq [] a) b"
    by (simp add: union_def baseUniq_append)
  also have "\<dots> = baseUniq [] a @ filter (\<lambda>y. y \<notin> set (baseUniq [] a)) (baseUniq [] b)"
    by (rule baseUniq_split)
  finally show ?thesis by (simp add: set_baseUniq)
qed

lemma distinct_union: "distinct (union a b)"
  by (simp add: union_def distinct_baseUniq)

lemma set_union: "set (union a b) = set a \<union> set b"
  by (simp add: union_def set_baseUniq)

lemma count_list_distinct: "distinct xs \<Longrightarrow> x \<in> set xs \<Longrightarrow> count_list xs x = 1"
  by (induction xs) (auto simp: count_list_0_iff)

lemma attributes_mergeClauses:
  "attributes_of (mergeClauses item fromItem)
     = merge_attributes (attributes_of item) (attributes_of fromItem)"
  by (cases item; cases fromItem) simp

lemma include_mergeClauses:
  "include_of (mergeClauses item fromItem) =
     (case include_of fromItem of
        None \<Rightarrow> include_of item
      | Some fromIncludes \<Rightarrow>
          (case include_of item of
             None \<Rightarrow> Some fromIncludes
           | Some includes \<Rightarrow> Some (merge_includes includes fromIncludes)))"
  by (cases item; cases fromItem) (simp split: option.splits)

lemma head_mergeClauses:
  "model_of (mergeClauses item fromItem) = model_of item"
  "as_of (mergeClauses item fromItem) = as_of item"
  "virtual_of (mergeClauses item fromItem) = virtual_of item"
  by (cases item; cases fromItem; simp)+

lemma merge_include_append:
  "\<forall>t \<in> set incs. \<not> (model_of t = model_of f \<and> as_of t = as_of f)
     \<Longrightarrow> merge_include incs f = incs @ [f]"
  by (induction incs) auto

lemma merge_include_update:
  "i < length incs \<Longrightarrow> model_of (incs ! i) = model_of f \<and> as_of (incs ! i) = as_of f
     \<Longrightarrow> \<forall>j < i. \<not> (model_of (incs ! j) = model_of f \<and> as_of (incs ! j) = as_of f)
     \<Longrightarrow> merge_include incs f = incs[i := mergeClauses (incs ! i) f]"
proof (induction incs arbitrary: i)
  case Nil
  then show ?case by simp
next
  case (Cons t ts)
  show ?case
  proof (cases i)
    case 0
    with Cons.prems show ?thesis by simp
  next
    case (Suc k)
    have head: "\<not> (model_of t = model_of f \<and> as_of t = as_of f)"
      using Cons.prems(3) Suc by auto
    have "merge_include ts f = ts[k := mergeClauses (ts ! k) f]"
    proof (rule Cons.IH)
      show "k < length ts" using Cons.prems(1) Suc by simp
      show "model_of (ts ! k) = model_of f \<and> as_of (ts ! k) = as_of f"
        using Cons.prems(2) Suc by simp
      show "\<forall>j<k. \<not> (model_of (ts ! j) = model_of f \<and> as_of (ts ! j) = as_of f)"
        using Cons.prems(3) Suc by auto
    qed
    with head Suc show ?thesis by auto
  qed
qed

text \<open>
  The merge of two attribute lists on its own. When both lists are present,
  \<open>mergeClauses\<close> leaves the ordered union in the consumer: the consumer's attributes at
  their first occurrences, then the dependency's attributes that the consumer does not
  have, each value once; for lists without repetitions that is the consumer's list
  followed by the new attributes of the dependency. Every attribute of the dependency
  occurs exactly once in the result. \<^verbatim>\<open>[x, y]\<close> merged with \<^verbatim>\<open>[y, z]\<close> is \<^verbatim>\<open>[x, y, z]\<close>. In
  the registry \<open>diamond\<close>, where no list names a field twice, the attributes of \<open>C\<close>
  occur once in \<open>A\<close> and once in \<open>B\<close>, whichever is closed first.
\<close>

lemma mergeClauses_attributes_union:
  "(attributes_of item = Some a \<and> attributes_of fromItem = Some b \<longrightarrow>
      (\<exists>r. attributes_of (mergeClauses item fromItem) = Some r
         \<and> r = baseUniq [] a @ filter (\<lambda>y. y \<notin> set a) (baseUniq [] b)
         \<and> distinct r \<and> set r = set a \<union> set b
         \<and> (distinct a \<and> distinct b \<longrightarrow> r = a @ filter (\<lambda>y. y \<notin> set a) b)
         \<and> (\<forall>x \<in> set b. count_list r x = 1)))
   \<and> attributes_of (mergeClauses (Item MNone None (Some [''x'', ''y'']) None None)
                       (Item MNone None (Some [''y'', ''z'']) None None))
        = Some [''x'', ''y'', ''z'']
   \<and> inheritInclude_each diamond [(''T'', ''A''), (''T'', ''B'')] = Some (Returns diamond_closed)
   \<and> inheritInclude_each diamond [(''T'', ''B''), (''T'', ''A'')] = Some (Returns diamond_closed)
   \<and> map_option (attributes_of \<circ> clauses) (lookup_field diamond_closed ''T'' ''A'')
        = Some (Some [''c1'', ''c2''])
   \<and> map_option (attributes_of \<circ> clauses) (lookup_field diamond_closed ''T'' ''B'')
        = Some (Some [''c2'', ''c1''])"
proof -
  have general: "\<exists>r. attributes_of (mergeClauses item fromItem) = Some r
         \<and> r = baseUniq [] a @ filter (\<lambda>y. y \<notin> set a) (baseUniq [] b)
         \<and> distinct r \<and> set r = set a \<union> set b
         \<and> (distinct a \<and> distinct b \<longrightarrow> r = a @ filter (\<lambda>y. y \<notin> set a) b)
         \<and> (\<forall>x \<in> set b. count_list r x = 1)"
    if a: "attributes_of item = Some a" and b: "attributes_of fromItem = Some b"
  proof -
    have merged: "attributes_of (mergeClauses item fromItem) = Some (union a b)"
      by (simp add: attributes_mergeClauses merge_attributes_def a b)
    have once: "count_list (union a b) x = 1" if "x \<in> set b" for x
      using that by (intro count_list_distinct) (simp_all add: distinct_union set_union)
    have plain: "union a b = a @ filter (\<lambda>y. y \<notin> set a) b" if "distinct a" "distinct b"
      using that by (simp add: union_split baseUniq_distinct_id)
    show ?thesis
      using merged once plain
      by (simp add: union_split [symmetric] distinct_union set_union)
  qed
  have xyz: "attributes_of (mergeClauses (Item MNone None (Some [''x'', ''y'']) None None)
                       (Item MNone None (Some [''y'', ''z'']) None None))
        = Some [''x'', ''y'', ''z'']"
    by code_simp
  have ab: "inheritInclude_each diamond [(''T'', ''A''), (''T'', ''B'')] = Some (Returns diamond_closed)"
    by code_simp
  have ba: "inheritInclude_each diamond [(''T'', ''B''), (''T'', ''A'')] = Some (Returns diamond_closed)"
    by code_simp
  have a: "map_option (attributes_of \<circ> clauses) (lookup_field diamond_closed ''T'' ''A'')
        = Some (Some [''c1'', ''c2''])"
    by code_simp
  have b: "map_option (attributes_of \<circ> clauses) (lookup_field diamond_closed ''T'' ''B'')
        = Some (Some [''c2'', ''c1''])"
    by code_simp
  from general xyz ab ba a b show ?thesis by blast
qed

text \<open>
  Claim C4 at a concrete diamond. In \<open>diamond2\<close> the fields \<open>A\<close> and \<open>B\<close> both read the
  virtual field \<open>C\<close>, and \<open>A\<close> has the attributes \<^verbatim>\<open>['n', 'n', 'V', 'C']\<close>. The registry is
  valid, the closure returns and \<open>B\<close> receives the attributes of \<open>C\<close>, each once. In \<open>A\<close>
  the closure splices \<open>V\<close> out and merges it in; the union drops the second \<open>n\<close>, the
  list gets shorter, and the loop ends before it reaches \<open>C\<close>: the closed list of \<open>A\<close> is
  \<^verbatim>\<open>['n', 'C']\<close>, in which the attributes of \<open>C\<close> occur not once but never, in either
  order of closing \<open>A\<close> and \<open>B\<close>. The merge of \<^verbatim>\<open>[x, y]\<close> with \<^verbatim>\<open>[y, z]\<close> is
  \<^verbatim>\<open>[x, y, z]\<close>.
\<close>

theorem diamond_attributes_lost:
  "parse_all diamond2 = Returns diamond2
   \<and> attribute_dependencies diamond2
       = Inr [((''T'', ''A''), (''T'', ''V'')), ((''T'', ''A''), (''T'', ''C'')),
              ((''T'', ''B''), (''T'', ''C''))]
   \<and> inheritInclude_each diamond2 [(''T'', ''A''), (''T'', ''B'')] = Some (Returns diamond2_closed)
   \<and> inheritInclude_each diamond2 [(''T'', ''B''), (''T'', ''A'')] = Some (Returns diamond2_closed)
   \<and> inheritInclude diamond2 = Some (Returns diamond2_closed)
   \<and> initVirtualFields diamond2 = Some (Returns diamond2_closed)
   \<and> map_option (attributes_of \<circ> clauses) (lookup_field diamond2_closed ''T'' ''C'')
       = Some (Some [''c1'', ''c2''])
   \<and> map_option (attributes_of \<circ> clauses) (lookup_field diamond2_closed ''T'' ''B'')
       = Some (Some [''c1'', ''c2''])
   \<and> map_option (attributes_of \<circ> clauses) (lookup_field diamond2_closed ''T'' ''A'')
       = Some (Some [''n'', ''C''])
   \<and> count_list [''n'', ''C''] ''c1'' = 0 \<and> count_list [''n'', ''C''] ''c2'' = 0
   \<and> attributes_of (mergeClauses (Item MNone None (Some [''x'', ''y'']) None None)
                       (Item MNone None (Some [''y'', ''z'']) None None))
        = Some [''x'', ''y'', ''z'']"
proof -
  have 1: "parse_all diamond2 = Returns diamond2" by code_simp
  have 2: "attribute_dependencies diamond2
       = Inr [((''T'', ''A''), (''T'', ''V'')), ((''T'', ''A''), (''T'', ''C'')),
              ((''T'', ''B''), (''T'', ''C''))]" by code_simp
  have 3: "inheritInclude_each diamond2 [(''T'', ''A''), (''T'', ''B'')] = Some (Returns diamond2_closed)"
    by code_simp
  have 4: "inheritInclude_each diamond2 [(''T'', ''B''), (''T'', ''A'')] = Some (Returns diamond2_closed)"
    by code_simp
  have 5: "inheritInclude diamond2 = Some (Returns diamond2_closed)" by code_simp
  have 6: "initVirtualFields diamond2 = Some (Returns diamond2_closed)" by code_simp
  have 7: "map_option (attributes_of \<circ> clauses) (lookup_field diamond2_closed ''T'' ''C'')
       = Some (Some [''c1'', ''c2''])" by code_simp
  have 8: "map_option (attributes_of \<circ> clauses) (lookup_field diamond2_closed ''T'' ''B'')
       = Some (Some [''c1'', ''c2''])" by code_simp
  have 9: "map_option (attributes_of \<circ> clauses) (lookup_field diamond2_closed ''T'' ''A'')
       = Some (Some [''n'', ''C''])" by code_simp
  have 10: "count_list [''n'', ''C''] ''c1'' = 0 \<and> count_list [''n'', ''C''] ''c2'' = 0" by simp
  have 11: "attributes_of (mergeClauses (Item MNone None (Some [''x'', ''y'']) None None)
                       (Item MNone None (Some [''y'', ''z'']) None None))
        = Some [''x'', ''y'', ''z'']" by code_simp
  from 1 2 3 4 5 6 7 8 9 10 11 show ?thesis by blast
qed

text \<open>
  Claim C5. An incoming include is merged into the first entry that has the same
  \<^verbatim>\<open>model\<close> and the same \<^verbatim>\<open>as\<close>, by \<open>mergeClauses\<close> (which keeps the entry's model and
  alias, merges the attributes and merges the nested includes the same way); when no
  entry has both, it is appended, also when an entry has the same model under another
  alias.
\<close>

theorem merge_include_identity:
  "((\<forall>t \<in> set incs. \<not> (model_of t = model_of f \<and> as_of t = as_of f))
       \<longrightarrow> merge_include incs f = incs @ [f])
   \<and> (\<forall>i < length incs.
         model_of (incs ! i) = model_of f \<and> as_of (incs ! i) = as_of f
         \<and> (\<forall>j < i. \<not> (model_of (incs ! j) = model_of f \<and> as_of (incs ! j) = as_of f))
       \<longrightarrow> merge_include incs f = incs[i := mergeClauses (incs ! i) f]
           \<and> length (merge_include incs f) = length incs)
   \<and> model_of (mergeClauses t f) = model_of t \<and> as_of (mergeClauses t f) = as_of t
   \<and> attributes_of (mergeClauses t f) = merge_attributes (attributes_of t) (attributes_of f)
   \<and> include_of (mergeClauses t f) =
       (case include_of f of
          None \<Rightarrow> include_of t
        | Some fromIncludes \<Rightarrow>
            (case include_of t of
               None \<Rightarrow> Some fromIncludes
             | Some tos \<Rightarrow> Some (merge_includes tos fromIncludes)))
   \<and> merge_includes incs (f # fs) = merge_includes (merge_include incs f) fs
   \<and> merge_includes incs [] = incs
   \<and> (model_of t = model_of f \<and> as_of t \<noteq> as_of f \<longrightarrow> merge_include [t] f = [t, f])"
proof -
  have append: "(\<forall>t \<in> set incs. \<not> (model_of t = model_of f \<and> as_of t = as_of f))
       \<longrightarrow> merge_include incs f = incs @ [f]"
    using merge_include_append [of incs f] by blast
  have update: "\<forall>i < length incs.
         model_of (incs ! i) = model_of f \<and> as_of (incs ! i) = as_of f
         \<and> (\<forall>j < i. \<not> (model_of (incs ! j) = model_of f \<and> as_of (incs ! j) = as_of f))
       \<longrightarrow> merge_include incs f = incs[i := mergeClauses (incs ! i) f]
           \<and> length (merge_include incs f) = length incs"
  proof (intro allI impI)
    fix i
    assume "i < length incs"
      and "model_of (incs ! i) = model_of f \<and> as_of (incs ! i) = as_of f
         \<and> (\<forall>j < i. \<not> (model_of (incs ! j) = model_of f \<and> as_of (incs ! j) = as_of f))"
    then have "merge_include incs f = incs[i := mergeClauses (incs ! i) f]"
      by (intro merge_include_update) simp_all
    then show "merge_include incs f = incs[i := mergeClauses (incs ! i) f]
           \<and> length (merge_include incs f) = length incs"
      by simp
  qed
  have distinct_alias: "model_of t = model_of f \<and> as_of t \<noteq> as_of f \<longrightarrow> merge_include [t] f = [t, f]"
    by simp
  show ?thesis
    using append update distinct_alias
    by (simp add: head_mergeClauses attributes_mergeClauses include_mergeClauses)
qed

theorem merge_include_identity_witness:
  "merge_include [Item (MRef ''Person'') (Some ''owner'') (Some [''id'']) None None,
                  Item (MRef ''Person'') None (Some [''id'']) None None]
      (Item (MRef ''Person'') None (Some [''name'']) None None)
     = [Item (MRef ''Person'') (Some ''owner'') (Some [''id'']) None None,
        Item (MRef ''Person'') None (Some [''id'', ''name'']) None None]
   \<and> merge_include [Item (MRef ''Person'') (Some ''owner'') (Some [''id'']) None None]
      (Item (MRef ''Person'') None (Some [''name'']) None None)
     = [Item (MRef ''Person'') (Some ''owner'') (Some [''id'']) None None,
        Item (MRef ''Person'') None (Some [''name'']) None None]"
proof -
  let ?owner = "Item (MRef ''Person'') (Some ''owner'') (Some [''id'']) None None"
  let ?plain = "Item (MRef ''Person'') None (Some [''id'']) None None"
  let ?f = "Item (MRef ''Person'') None (Some [''name'']) None None"
  have merged: "mergeClauses ?plain ?f = Item (MRef ''Person'') None (Some [''id'', ''name'']) None None"
    by code_simp
  have "merge_include [?owner, ?plain] ?f = [?owner, ?plain][1 := mergeClauses ([?owner, ?plain] ! 1) ?f]"
    using merge_include_identity [of "[?owner, ?plain]" ?f ?plain "[]"]
    by (simp add: less_Suc_eq)
  moreover have "merge_include [?owner] ?f = [?owner] @ [?f]"
    using merge_include_identity [of "[?owner]" ?f ?plain "[]"] by simp
  ultimately show ?thesis
    using merged by simp
qed

text \<open>
  Claim C10. A consumer with attributes loses them when the dependency has none; the
  union is taken when both have attributes; a consumer without attributes stays without.
\<close>

theorem mergeClauses_absent_attributes:
  "(attributes_of item \<noteq> None \<and> attributes_of fromItem = None
      \<longrightarrow> attributes_of (mergeClauses item fromItem) = None)
   \<and> (\<forall>a b. attributes_of item = Some a \<and> attributes_of fromItem = Some b
      \<longrightarrow> attributes_of (mergeClauses item fromItem) = Some (union a b))
   \<and> (attributes_of item = None \<longrightarrow> attributes_of (mergeClauses item fromItem) = None)
   \<and> (attributes_of (mergeClauses item fromItem) \<noteq> None
        \<longleftrightarrow> attributes_of item \<noteq> None \<and> attributes_of fromItem \<noteq> None)"
  by (auto simp: attributes_mergeClauses merge_attributes_def split: option.splits)

theorem mergeClauses_absent_attributes_witness:
  "attributes_of (mergeClauses (Item MNone None (Some [''name'']) None None)
                    (Item MNone None None None None)) = None
   \<and> attributes_of (mergeClauses (Item MNone None None None None)
                    (Item MNone None (Some [''name'']) None None)) = None
   \<and> attributes_of (mergeClauses (Item MNone None (Some [''id'']) None None)
                    (Item MNone None (Some [''name'']) None None)) = Some (union [''id''] [''name''])"
  using mergeClauses_absent_attributes
          [of "Item MNone None (Some [''name'']) None None" "Item MNone None None None None"]
        mergeClauses_absent_attributes
          [of "Item MNone None None None None" "Item MNone None (Some [''name'']) None None"]
        mergeClauses_absent_attributes
          [of "Item MNone None (Some [''id'']) None None"
              "Item MNone None (Some [''name'']) None None"]
  by simp

section \<open>Properties of the closure\<close>

lemma map_of_update_model:
  "map_of (AList.update k v al) k' = (if k' = k then Some v else map_of al k')"
  by (simp add: update_conv')

lemma lookup_field_set_field:
  "lookup_field (set_field s m f x) m' f' =
     (if m' = m \<and> f' = f \<and> map_of s m \<noteq> None then Some x else lookup_field s m' f')"
  by (auto simp: lookup_field_def set_field_def map_of_update_model split: option.splits)

lemma order_of_set_clauses:
  assumes "lookup_field s m f = Some x"
  shows "map_option order_of (lookup_field (set_field s m f (x\<lparr>clauses := c\<rparr>)) m' f')
           = map_option order_of (lookup_field s m' f')"
  using assms by (auto simp: lookup_field_set_field)

lemma inheritInclude_each_order:
  "inheritInclude_each s dependents = Some r \<Longrightarrow>
     map_option order_of (lookup_field (state_of r) m f)
       = map_option order_of (lookup_field s m f)"
proof (induction dependents arbitrary: s)
  case Nil
  then show ?case by (auto simp: state_of_def)
next
  case (Cons d ds)
  show ?case
  proof (cases "lookup_field s (fst d) (snd d)")
    case None
    with Cons.prems show ?thesis by (auto simp: state_of_def)
  next
    case (Some x)
    from Cons.prems Some obtain mr where
      mr: "mergeVirtual s (clauses x) (MRef (fst d)) = Some mr"
      by (auto split: Option.bind_splits)
    show ?thesis
    proof (cases mr)
      case (Throws e c)
      with Cons.prems Some mr
      have "r = Throws e (set_field s (fst d) (snd d) (x\<lparr>clauses := c\<rparr>))" by simp
      then show ?thesis
        using order_of_set_clauses [OF Some] by (simp add: state_of_def)
    next
      case (Returns c)
      with Cons.prems Some mr
      have "inheritInclude_each (set_field s (fst d) (snd d) (x\<lparr>clauses := c\<rparr>)) ds = Some r"
        by simp
      then have "map_option order_of (lookup_field (state_of r) m f)
          = map_option order_of
              (lookup_field (set_field s (fst d) (snd d) (x\<lparr>clauses := c\<rparr>)) m f)"
        by (rule Cons.IH)
      then show ?thesis
        using order_of_set_clauses [OF Some] by simp
    qed
  qed
qed

text \<open>
  Claim C6, as stated, at a concrete registry: \<open>F\<close> reads the virtual field \<open>D\<close>, both
  have an order clause. Closing \<open>F\<close> merges the attributes of \<open>D\<close> into it and leaves
  the order of \<open>F\<close> as it was; the order entry of \<open>D\<close> is not appended.
\<close>

theorem closure_keeps_order_counterexample:
  "inheritInclude_each ordered [(''T'', ''F'')] = Some (Returns ordered_closed)
   \<and> map_option order_of (lookup_field ordered_closed ''T'' ''F'')
       = Some (Some [ArrOrder [OStr ''n'', OStr ''ASC'']])
   \<and> map_option order_of (lookup_field ordered_closed ''T'' ''F'')
       \<noteq> Some (Some [ArrOrder [OStr ''n'', OStr ''ASC''], ArrOrder [OStr ''n'', OStr ''DESC'']])
   \<and> map_option order_of (lookup_field ordered ''T'' ''D'')
       = Some (Some [ArrOrder [OStr ''n'', OStr ''DESC'']])"
proof -
  have 1: "inheritInclude_each ordered [(''T'', ''F'')] = Some (Returns ordered_closed)"
    by code_simp
  have 2: "map_option order_of (lookup_field ordered_closed ''T'' ''F'')
       = Some (Some [ArrOrder [OStr ''n'', OStr ''ASC'']])" by code_simp
  have 3: "map_option order_of (lookup_field ordered ''T'' ''D'')
       = Some (Some [ArrOrder [OStr ''n'', OStr ''DESC'']])" by code_simp
  have 4: "map_option order_of (lookup_field ordered_closed ''T'' ''F'')
       \<noteq> Some (Some [ArrOrder [OStr ''n'', OStr ''ASC''], ArrOrder [OStr ''n'', OStr ''DESC'']])"
    unfolding 2 by simp
  from 1 2 4 3 show ?thesis by blast
qed

subsection \<open>The order list in the merge at query time\<close>

lemma order_entries_merge_order:
  "order_entries (merge_order orders fromOrders) = order_entries orders @ order_entries fromOrders"
  by (simp add: order_entries_def merge_order_def split: option.splits)

lemma addVirtualFieldOptions_order:
  "snd (state_of (addVirtualFieldOptions options f fieldName))
     = merge_order (snd options) (order_of f)"
  by (simp add: addVirtualFieldOptions_def shared_mergeClauses_def state_of_def Let_def
           split: option.splits)

lemma replaceVirtualFields_attributes_order:
  assumes "replaceVirtualFields_attributes s model i options = Some r"
  shows "\<exists>extra. order_entries (snd (state_of r)) = order_entries (snd options) @ extra"
proof (rule replaceVirtualFields_attributes.raw_induct
         [where P = "\<lambda>s model i options r.
            \<exists>extra. order_entries (snd (state_of r)) = order_entries (snd options) @ extra",
          OF _ assms], goal_cases)
  case (1 loop s model i options r)
  note IH = "1"(1) and body = "1"(2)
  show ?case
  proof (cases "attributes_of (fst options)")
    case None
    with body show ?thesis by (auto simp: state_of_def)
  next
    case (Some attrs)
    show ?thesis
    proof (cases "i < length attrs")
      case False
      with body Some show ?thesis by (auto simp: state_of_def)
    next
      case inside: True
      show ?thesis
      proof (cases model)
        case (MName n)
        with body Some inside show ?thesis by (auto simp: state_of_def)
      next
        case MNone
        with body Some inside show ?thesis by (auto simp: state_of_def)
      next
        case (MRef n)
        show ?thesis
        proof (cases "map_of s n")
          case None
          with body Some inside MRef show ?thesis by (auto simp: state_of_def)
        next
          case m: (Some m)
          show ?thesis
          proof (cases "map_of (attributes m) (attrs ! i)")
            case None
            with body Some inside MRef m show ?thesis by (auto simp: state_of_def)
          next
            case f: (Some f)
            show ?thesis
            proof (cases "ftype f \<noteq> VIRTUAL")
              case True
              with body Some inside MRef m f have "loop s model (i + 1) options = Some r"
                by simp
              then show ?thesis by (rule IH)
            next
              case False
              have merged: "snd (state_of (addVirtualFieldOptions options f (attrs ! i)))
                  = merge_order (snd options) (order_of f)"
                by (rule addVirtualFieldOptions_order)
              show ?thesis
              proof (cases "addVirtualFieldOptions options f (attrs ! i)")
                case (Throws e options')
                with body Some inside MRef m f False have "r = Throws e options'" by simp
                with merged Throws show ?thesis
                  by (simp add: state_of_def order_entries_merge_order)
              next
                case (Returns options')
                with merged have snd': "snd options' = merge_order (snd options) (order_of f)"
                  by (simp add: state_of_def)
                show ?thesis
                proof (cases "attributes_of (fst options')")
                  case None
                  with body Some inside MRef m f False Returns have "r = Throws TypeError options'"
                    by simp
                  with snd' show ?thesis
                    by (simp add: state_of_def order_entries_merge_order)
                next
                  case attrs': (Some attrs')
                  with body Some inside MRef m f False Returns
                  have "loop s model i
                          (set_attributes (fst options') (Some (splice i attrs')), snd options')
                        = Some r"
                    by simp
                  from IH [OF this] snd' show ?thesis
                    by (auto simp: order_entries_merge_order)
                qed
              qed
            qed
          qed
        qed
      qed
    qed
  qed
qed

text \<open>
  Claim C6, amended. The Requirement Merger is applied in two places, and they differ.
  At closure time the merge is \<open>mergeClauses\<close> of \<^verbatim>\<open>initVirtualFields\<close>, which covers
  attributes and includes only: whatever \<open>inheritInclude\<close> does, returning or throwing,
  every field of the registry keeps the order list it had, and the order entries of a
  dependency are not appended. At query time the merge is the one of \<^verbatim>\<open>./shared\<close>,
  modelled from the specification: the order entries of the virtual field are appended
  after the entries that are there, both sides in their order. So after
  \<open>addVirtualFieldOptions\<close> the order list is the request's own followed by the field's;
  the loop over the requested attributes only ever appends, so that the request's own
  entries stay in front; and the request for \<^verbatim>\<open>['F', 'D']\<close> ordered by \<^verbatim>\<open>['X', 'ASC']\<close>
  ends with the order of the request, then that of \<open>F\<close>, then that of \<open>D\<close>.
\<close>

theorem order_entries_on_merge:
  "(inheritInclude_each s dependents = Some r \<longrightarrow>
      map_option order_of (lookup_field (state_of r) m f)
        = map_option order_of (lookup_field s m f))
   \<and> (inheritInclude s = Some r \<longrightarrow>
      map_option order_of (lookup_field (state_of r) m f)
        = map_option order_of (lookup_field s m f))
   \<and> snd (shared_mergeClauses (item, Some own) (fromItem, Some theirs) virtual)
        = Some (own @ theirs)
   \<and> (order_of dependency = Some theirs \<longrightarrow>
        snd (state_of (addVirtualFieldOptions (item, Some own) dependency fieldName))
          = Some (own @ theirs))
   \<and> (replaceVirtualFields_attributes s model i options = Some q \<longrightarrow>
        (\<exists>extra. order_entries (snd (state_of q)) = order_entries (snd options) @ extra))
   \<and> replaceVirtualFields ordered_closed
        (Item MNone None (Some [''F'', ''D'']) None (Some []),
         Some [ArrOrder [OStr ''X'', OStr ''ASC'']])
        (MRef ''T'')
      = Some (Returns (Item MNone None (Some [''n'']) None (Some [''F'', ''D'']),
                Some [ArrOrder [OStr ''X'', OStr ''ASC''], ArrOrder [OStr ''n'', OStr ''ASC''],
                      ArrOrder [OStr ''n'', OStr ''DESC'']]))"
proof -
  have whole: "map_option order_of (lookup_field (state_of r) m f)
        = map_option order_of (lookup_field s m f)" if "inheritInclude s = Some r"
    using that inheritInclude_each_order
    by (auto simp: inheritInclude_def state_of_def split: sum.splits)
  have merger: "snd (shared_mergeClauses (item, Some own) (fromItem, Some theirs) virtual)
        = Some (own @ theirs)"
    by (simp add: shared_mergeClauses_def merge_order_def)
  have added: "snd (state_of (addVirtualFieldOptions (item, Some own) dependency fieldName))
          = Some (own @ theirs)" if "order_of dependency = Some theirs"
    using that by (simp add: addVirtualFieldOptions_order merge_order_def)
  have query: "replaceVirtualFields ordered_closed
        (Item MNone None (Some [''F'', ''D'']) None (Some []),
         Some [ArrOrder [OStr ''X'', OStr ''ASC'']])
        (MRef ''T'')
      = Some (Returns (Item MNone None (Some [''n'']) None (Some [''F'', ''D'']),
                Some [ArrOrder [OStr ''X'', OStr ''ASC''], ArrOrder [OStr ''n'', OStr ''ASC''],
                      ArrOrder [OStr ''n'', OStr ''DESC'']]))"
    by code_simp
  show ?thesis
    using whole inheritInclude_each_order merger added replaceVirtualFields_attributes_order query
    by blast
qed

theorem order_entries_on_merge_witness:
  "map_option order_of (lookup_field (state_of (Returns ordered_closed)) ''T'' ''F'')
     = map_option order_of (lookup_field ordered ''T'' ''F'')
   \<and> snd (state_of (addVirtualFieldOptions
        (Item MNone None (Some [''D'']) None (Some []), Some [ArrOrder [OStr ''n'', OStr ''ASC'']])
        (virtual_field (Some [''n'']) None (Some [ArrOrder [OStr ''n'', OStr ''DESC'']])) ''D''))
     = Some [ArrOrder [OStr ''n'', OStr ''ASC''], ArrOrder [OStr ''n'', OStr ''DESC'']]
   \<and> (\<exists>extra. order_entries (snd (state_of (Returns
          (Item MNone None (Some [''n'']) None (Some [''D'']),
           Some [ArrOrder [OStr ''n'', OStr ''ASC''], ArrOrder [OStr ''n'', OStr ''DESC'']]))))
        = order_entries (Some [ArrOrder [OStr ''n'', OStr ''ASC'']]) @ extra)"
proof -
  let ?request = "(Item MNone None (Some [''D'']) None (Some []),
                   Some [ArrOrder [OStr ''n'', OStr ''ASC'']])"
  let ?expanded = "Returns (Item MNone None (Some [''n'']) None (Some [''D'']),
           Some [ArrOrder [OStr ''n'', OStr ''ASC''], ArrOrder [OStr ''n'', OStr ''DESC'']])"
  let ?D = "virtual_field (Some [''n'']) None (Some [ArrOrder [OStr ''n'', OStr ''DESC'']])"
  have each: "inheritInclude_each ordered [(''T'', ''F'')] = Some (Returns ordered_closed)"
    by code_simp
  have closed: "inheritInclude ordered = Some (Returns ordered_closed)"
    by code_simp
  have theirs: "order_of ?D = Some [ArrOrder [OStr ''n'', OStr ''DESC'']]"
    by (simp add: virtual_field_def)
  have loop: "replaceVirtualFields_attributes ordered_closed (MRef ''T'') 0 ?request
      = Some ?expanded"
    by code_simp
  note closure = order_entries_on_merge
    [of ordered "[(''T'', ''F'')]" "Returns ordered_closed" "''T''" "''F''"]
  note query = order_entries_on_merge
    [of ordered_closed _ _ _ _ "Item MNone None (Some [''D'']) None (Some [])"
        "[ArrOrder [OStr ''n'', OStr ''ASC'']]" _ "[ArrOrder [OStr ''n'', OStr ''DESC'']]" _
        ?D "''D''" "MRef ''T''" 0 ?request ?expanded]
  from closure each closed
  have 1: "map_option order_of (lookup_field (state_of (Returns ordered_closed)) ''T'' ''F'')
     = map_option order_of (lookup_field ordered ''T'' ''F'')" by blast
  from query theirs
  have 2: "snd (state_of (addVirtualFieldOptions ?request ?D ''D''))
     = Some [ArrOrder [OStr ''n'', OStr ''ASC''], ArrOrder [OStr ''n'', OStr ''DESC'']]"
    by simp
  from query loop
  have 3: "\<exists>extra. order_entries (snd (state_of ?expanded))
        = order_entries (Some [ArrOrder [OStr ''n'', OStr ''ASC'']]) @ extra"
    by simp
  from 1 2 3 show ?thesis by blast
qed

text \<open>
  Claim C2 at two concrete inputs. The registry \<open>leak\<close> is valid (parsing changes
  nothing) and its sole dependent is \<open>F\<close>, with attributes \<^verbatim>\<open>['n', 'n', 'V', 'W']\<close>. The
  closure splices \<open>V\<close> out and merges it in; the union drops the second \<open>n\<close>, the array
  gets shorter, and the loop ends before it reaches \<open>W\<close>: the closed field still names the
  virtual field \<open>W\<close>. In the hook, the request \<^verbatim>\<open>['name', 'name', 'Label']\<close> is merged first
  and spliced afterwards, so the splice removes the attribute that was merged in and
  \<open>Label\<close> stays in the expanded request.
\<close>

theorem derived_name_left_behind:
  "parse_all leak = Returns leak
   \<and> attribute_dependencies leak
       = Inr [((''T'', ''F''), (''T'', ''V'')), ((''T'', ''F''), (''T'', ''W''))]
   \<and> inheritInclude_each leak [(''T'', ''F'')] = Some (Returns leak_closed)
   \<and> initVirtualFields leak = Some (Returns leak_closed)
   \<and> map_option (attributes_of \<circ> clauses) (lookup_field leak_closed ''T'' ''F'')
       = Some (Some [''n'', ''W''])
   \<and> map_option ftype (lookup_field leak_closed ''T'' ''W'') = Some VIRTUAL
   \<and> beforeFindHook True mergeOrders tasks_closed ''Task''
        \<lparr>request = Item MNone None (Some [''name'', ''name'', ''Label'']) None (Some []),
         order_by = None\<rparr>
      = Some (Returns
          \<lparr>request = Item MNone None (Some [''name'', ''Label''])
                        (Some [Item (MRef ''Person'') None (Some [''name'']) None None])
                        (Some [''Label'']),
           order_by = None\<rparr>)
   \<and> map_option ftype (lookup_field tasks_closed ''Task'' ''Label'') = Some VIRTUAL"
proof -
  have 1: "parse_all leak = Returns leak" by code_simp
  have 2: "attribute_dependencies leak
       = Inr [((''T'', ''F''), (''T'', ''V'')), ((''T'', ''F''), (''T'', ''W''))]" by code_simp
  have 3: "inheritInclude_each leak [(''T'', ''F'')] = Some (Returns leak_closed)" by code_simp
  have 4: "initVirtualFields leak = Some (Returns leak_closed)" by code_simp
  have 5: "map_option (attributes_of \<circ> clauses) (lookup_field leak_closed ''T'' ''F'')
       = Some (Some [''n'', ''W''])" by code_simp
  have 6: "map_option ftype (lookup_field leak_closed ''T'' ''W'') = Some VIRTUAL" by code_simp
  have 7: "beforeFindHook True mergeOrders tasks_closed ''Task''
        \<lparr>request = Item MNone None (Some [''name'', ''name'', ''Label'']) None (Some []),
         order_by = None\<rparr>
      = Some (Returns
          \<lparr>request = Item MNone None (Some [''name'', ''Label''])
                        (Some [Item (MRef ''Person'') None (Some [''name'']) None None])
                        (Some [''Label'']),
           order_by = None\<rparr>)" by code_simp
  have 8: "map_option ftype (lookup_field tasks_closed ''Task'' ''Label'') = Some VIRTUAL"
    by code_simp
  from 1 2 3 4 5 6 7 8 show ?thesis by blast
qed

section \<open>Properties of the order inheritance\<close>

lemma inheritOrder_replace_from:
  assumes "i \<le> length orders"
    and "\<forall>order \<in> set (drop i orders). \<exists>elems. order = ArrOrder elems"
    and "\<forall>order \<in> set (drop i orders). order_target s modelName order \<noteq> None"
    and "\<forall>order \<in> set (drop i orders). \<forall>fm fn ff.
           order_target s modelName order = Some (fm, fn, ff) \<and> ftype ff = VIRTUAL
             \<longrightarrow> (\<exists>fromOrders. order_of ff = Some fromOrders \<and> fromOrders \<noteq> [])"
  shows "inheritOrder_replace s modelName fieldName i orders
           = Returns (take i orders @ concat (map (spec_substitute s modelName) (drop i orders)))"
  using assms
proof (induction s modelName fieldName i orders rule: inheritOrder_replace.induct)
  case (1 s modelName fieldName i orders)
  show ?case
  proof (cases "i < length orders")
    case False
    with "1.prems"(1) show ?thesis
      by (subst inheritOrder_replace.simps) simp
  next
    case True
    then have split: "drop i orders = orders ! i # drop (Suc i) orders"
      by (simp add: Cons_nth_drop_Suc)
    then have here: "orders ! i \<in> set (drop i orders)"
      and rest: "set (drop (Suc i) orders) \<subseteq> set (drop i orders)"
      by auto
    from here "1.prems"(2) obtain elems where elems: "orders ! i = ArrOrder elems" by blast
    from here "1.prems"(3) obtain fm fn ff where
      target: "order_target s modelName (orders ! i) = Some (fm, fn, ff)"
      by fastforce
    show ?thesis
    proof (cases "ftype ff = VIRTUAL")
      case False
      have "inheritOrder_replace s modelName fieldName (i + 1) orders
              = Returns (take (i + 1) orders
                  @ concat (map (spec_substitute s modelName) (drop (i + 1) orders)))"
      proof (rule "1.IH"(1) [OF True target refl refl])
        show "ftype ff \<noteq> VIRTUAL" by (rule False)
        show "i + 1 \<le> length orders" using True by simp
        show "\<forall>order\<in>set (drop (i + 1) orders). \<exists>elems. order = ArrOrder elems"
          using "1.prems"(2) rest by auto
        show "\<forall>order\<in>set (drop (i + 1) orders). order_target s modelName order \<noteq> None"
          using "1.prems"(3) rest by auto
        show "\<forall>order\<in>set (drop (i + 1) orders). \<forall>fm fn ff.
           order_target s modelName order = Some (fm, fn, ff) \<and> ftype ff = VIRTUAL
             \<longrightarrow> (\<exists>fromOrders. order_of ff = Some fromOrders \<and> fromOrders \<noteq> [])"
          using "1.prems"(4) rest by auto
      qed
      moreover have "spec_substitute s modelName (orders ! i) = [orders ! i]"
        using target False by (simp add: spec_substitute_def)
      ultimately show ?thesis
        using True target False split
        by (subst inheritOrder_replace.simps) (simp add: take_Suc_conv_app_nth)
    next
      case virtual: True
      from here "1.prems"(4) target virtual obtain fromOrders where
        fromOrders: "order_of ff = Some fromOrders" "fromOrders \<noteq> []"
        by blast
      define inserted where
        "inserted = map (\<lambda>fromOrder. ArrOrder (concat_order (take (length elems - 2) elems) fromOrder))
                      fromOrders"
      have subst: "substitute (orders ! i) fromOrders = Some inserted"
        by (simp add: substitute_def elems inserted_def)
      have spec: "spec_substitute s modelName (orders ! i) = inserted"
        using target virtual fromOrders
        by (simp add: spec_substitute_def leading_path_def elems inserted_def)
      let ?orders' = "take i orders @ inserted @ drop (Suc i) orders"
      have len: "length (take i orders) = i" using True by simp
      have dropped: "drop (i + length inserted) ?orders' = drop (Suc i) orders"
        using len by simp
      have taken: "take (i + length inserted) ?orders' = take i orders @ inserted"
        using len by simp
      have "inheritOrder_replace s modelName fieldName (i + length inserted) ?orders'
              = Returns (take (i + length inserted) ?orders'
                  @ concat (map (spec_substitute s modelName) (drop (i + length inserted) ?orders')))"
      proof (rule "1.IH"(2) [OF True target refl refl _ fromOrders(1) _ subst])
        show "\<not> ftype ff \<noteq> VIRTUAL" using virtual by simp
        show "length fromOrders \<noteq> 0" using fromOrders(2) by simp
        show "i + length inserted \<le> length ?orders'" using len by simp
        show "\<forall>order\<in>set (drop (i + length inserted) ?orders'). \<exists>elems. order = ArrOrder elems"
          unfolding dropped using "1.prems"(2) rest by auto
        show "\<forall>order\<in>set (drop (i + length inserted) ?orders').
                 order_target s modelName order \<noteq> None"
          unfolding dropped using "1.prems"(3) rest by auto
        show "\<forall>order\<in>set (drop (i + length inserted) ?orders'). \<forall>fm fn ff.
           order_target s modelName order = Some (fm, fn, ff) \<and> ftype ff = VIRTUAL
             \<longrightarrow> (\<exists>fromOrders. order_of ff = Some fromOrders \<and> fromOrders \<noteq> [])"
          unfolding dropped using "1.prems"(4) rest by auto
      qed
      then have "inheritOrder_replace s modelName fieldName (i + length inserted) ?orders'
              = Returns (take i orders @ inserted
                  @ concat (map (spec_substitute s modelName) (drop (Suc i) orders)))"
        unfolding dropped taken by simp
      then show ?thesis
        using True target virtual fromOrders subst spec split
        by (subst inheritOrder_replace.simps) simp
    qed
  qed
qed

text \<open>
  The loop of lines 234 to 255 on the clauses of one field, when all of them are arrays
  whose terminal field exists and whose virtual terminal fields have a non-empty order
  list: it returns the list in which every clause with a virtual terminal field is
  replaced, in place, by the clauses of that field's order list, each behind the original
  clause's leading path, in their order, and every other clause stays where it is. With
  \<open>Label\<close> ordered by \<^verbatim>\<open>['name', 'DESC']\<close> and \<open>Title\<close> ordered by \<^verbatim>\<open>['Label']\<close>, the order
  of \<open>Title\<close> becomes \<^verbatim>\<open>[['name', 'DESC']]\<close>; through a join the leading path stays in
  front (\<open>paths\<close>); and with two dependents in a chain both are rewritten, the clauses
  around the replaced one staying where they are (\<open>headings\<close>).
\<close>

lemma inheritOrder_replace_substitutes:
  assumes "\<forall>order \<in> set orders. \<exists>elems. order = ArrOrder elems"
    and "\<forall>order \<in> set orders. order_target s modelName order \<noteq> None"
    and "\<forall>order \<in> set orders. \<forall>fm fn ff.
           order_target s modelName order = Some (fm, fn, ff) \<and> ftype ff = VIRTUAL
             \<longrightarrow> (\<exists>fromOrders. order_of ff = Some fromOrders \<and> fromOrders \<noteq> [])"
  shows "inheritOrder_replace s modelName fieldName 0 orders
           = Returns (concat (map (spec_substitute s modelName) orders))
         \<and> parse_all titles = Returns titles_parsed
         \<and> order_dependencies titles_parsed = Inr [((''Task'', ''Title''), (''Task'', ''Label''))]
         \<and> inheritOrder_each titles_parsed [(''Task'', ''Title'')] = Returns titles_closed
         \<and> initVirtualFields titles = Some (Returns titles_closed)
         \<and> map_option order_of (lookup_field titles_closed ''Task'' ''Title'')
             = Some (Some [ArrOrder [OStr ''name'', OStr ''DESC'']])"
proof -
  have "inheritOrder_replace s modelName fieldName 0 orders
           = Returns (take 0 orders @ concat (map (spec_substitute s modelName) (drop 0 orders)))"
    using assms by (intro inheritOrder_replace_from) simp_all
  moreover have "parse_all titles = Returns titles_parsed" by code_simp
  moreover have "order_dependencies titles_parsed
      = Inr [((''Task'', ''Title''), (''Task'', ''Label''))]" by code_simp
  moreover have "inheritOrder_each titles_parsed [(''Task'', ''Title'')] = Returns titles_closed"
    by code_simp
  moreover have "initVirtualFields titles = Some (Returns titles_closed)" by code_simp
  moreover have "map_option order_of (lookup_field titles_closed ''Task'' ''Title'')
             = Some (Some [ArrOrder [OStr ''name'', OStr ''DESC'']])" by code_simp
  ultimately show ?thesis by simp
qed

lemma inheritOrder_replace_paths:
  "inheritOrder_replace paths ''Task'' ''ByPerson'' 0
     [ArrOrder [OSeg (MRef ''Person'') None, OStr ''Sort'', OStr ''ASC''],
      ArrOrder [OStr ''name'', OStr ''ASC'']]
   = Returns [ArrOrder [OSeg (MRef ''Person'') None, OStr ''name'', OStr ''DESC''],
              ArrOrder [OSeg (MRef ''Person'') None, OStr ''id'', OStr ''ASC''],
              ArrOrder [OStr ''name'', OStr ''ASC'']]"
proof -
  let ?first = "ArrOrder [OSeg (MRef ''Person'') None, OStr ''Sort'', OStr ''ASC'']"
  let ?second = "ArrOrder [OStr ''name'', OStr ''ASC'']"
  have first: "order_target paths ''Task'' ?first
      = Some (MRef ''Person'', ''Sort'', virtual_field (Some []) None
             (Some [ArrOrder [OStr ''name'', OStr ''DESC''], ArrOrder [OStr ''id'', OStr ''ASC'']]))"
    by code_simp
  have second: "order_target paths ''Task'' ?second = Some (MRef ''Task'', ''name'', base)"
    by code_simp
  have replaced: "concat (map (spec_substitute paths ''Task'') [?first, ?second])
      = [ArrOrder [OSeg (MRef ''Person'') None, OStr ''name'', OStr ''DESC''],
         ArrOrder [OSeg (MRef ''Person'') None, OStr ''id'', OStr ''ASC''],
         ArrOrder [OStr ''name'', OStr ''ASC'']]"
    by code_simp
  have "inheritOrder_replace paths ''Task'' ''ByPerson'' 0 [?first, ?second]
          = Returns (concat (map (spec_substitute paths ''Task'') [?first, ?second]))"
    using inheritOrder_replace_substitutes [of "[?first, ?second]" paths "''Task''" "''ByPerson''"]
      first second
    by (simp add: virtual_field_def base_def)
  then show ?thesis
    unfolding replaced .
qed

lemma inheritOrder_headings:
  "initVirtualFields headings = Some (Returns headings_closed)"
  by code_simp

text \<open>
  Claim C7 at a concrete input. \<open>Title\<close> is ordered by \<^verbatim>\<open>[['Label'], 'name DESC']\<close>: a
  structured clause whose terminal \<open>Label\<close> is a virtual field with an order of its own,
  and a raw string. \<open>parseOrder\<close> leaves a raw string alone (line 85), so the registry
  is valid. \<open>inheritOrder\<close> reads \<^verbatim>\<open>order[order.length - 3].model\<close> and the attributes of
  that model for every clause, a string included (lines 207 to 210): it throws a
  \<^verbatim>\<open>TypeError\<close> before any clause is replaced, and \<open>Title\<close> keeps the clause
  \<^verbatim>\<open>['Label', 'ASC']\<close>. Without the raw string the registry is closed as the claim says.
\<close>

theorem raw_order_clause_stops_inheritance:
  "parse_all titles_raw = Returns titles_raw_parsed
   \<and> parseOrder_entry titles_raw ''Task'' ''Title'' (RawOrder ''name DESC'')
       = Returns (RawOrder ''name DESC'')
   \<and> inheritInclude titles_raw_parsed = Some (Returns titles_raw_parsed)
   \<and> order_target titles_raw_parsed ''Task'' (RawOrder ''name DESC'') = None
   \<and> order_dependencies titles_raw_parsed = Inl TypeError
   \<and> inheritOrder titles_raw_parsed = Throws TypeError titles_raw_parsed
   \<and> initVirtualFields titles_raw = Some (Throws TypeError titles_raw_parsed)
   \<and> map_option order_of (lookup_field titles_raw_parsed ''Task'' ''Title'')
       = Some (Some [ArrOrder [OStr ''Label'', OStr ''ASC''], RawOrder ''name DESC''])
   \<and> map_option ftype (lookup_field titles_raw_parsed ''Task'' ''Label'') = Some VIRTUAL
   \<and> map_option order_of (lookup_field titles_raw_parsed ''Task'' ''Label'')
       = Some (Some [ArrOrder [OStr ''name'', OStr ''DESC'']])
   \<and> initVirtualFields titles = Some (Returns titles_closed)"
proof -
  have 1: "parse_all titles_raw = Returns titles_raw_parsed" by code_simp
  have 2: "parseOrder_entry titles_raw ''Task'' ''Title'' (RawOrder ''name DESC'')
       = Returns (RawOrder ''name DESC'')" by code_simp
  have 3: "inheritInclude titles_raw_parsed = Some (Returns titles_raw_parsed)" by code_simp
  have 4: "order_target titles_raw_parsed ''Task'' (RawOrder ''name DESC'') = None" by code_simp
  have 5: "order_dependencies titles_raw_parsed = Inl TypeError" by code_simp
  have 6: "inheritOrder titles_raw_parsed = Throws TypeError titles_raw_parsed" by code_simp
  have 7: "initVirtualFields titles_raw = Some (Throws TypeError titles_raw_parsed)" by code_simp
  have 8: "map_option order_of (lookup_field titles_raw_parsed ''Task'' ''Title'')
       = Some (Some [ArrOrder [OStr ''Label'', OStr ''ASC''], RawOrder ''name DESC''])"
    by code_simp
  have 9: "map_option ftype (lookup_field titles_raw_parsed ''Task'' ''Label'') = Some VIRTUAL"
    by code_simp
  have 10: "map_option order_of (lookup_field titles_raw_parsed ''Task'' ''Label'')
       = Some (Some [ArrOrder [OStr ''name'', OStr ''DESC'']])" by code_simp
  have 11: "initVirtualFields titles = Some (Returns titles_closed)" by code_simp
  from 1 2 3 4 5 6 7 8 9 10 11 show ?thesis by blast
qed

section \<open>Properties of the hook\<close>

text \<open>
  Claim C1. After initialisation of the registry \<open>tasks\<close>, the hook turns the request
  for \<^verbatim>\<open>['Label']\<close> on \<open>Task\<close> into the request for \<^verbatim>\<open>['name']\<close> with the include of
  \<open>Person\<close> and its \<^verbatim>\<open>['name']\<close>, and records \<open>Label\<close> in \<^verbatim>\<open>_virtual.get\<close> (which the caller
  provides empty), whatever \<open>mergeOrders\<close> is.
\<close>

theorem expand_label:
  "initVirtualFields tasks = Some (Returns tasks_closed)
   \<and> beforeFindHook True mergeOrders tasks_closed ''Task''
        \<lparr>request = Item MNone None (Some [''Label'']) None (Some []), order_by = None\<rparr>
      = Some (Returns
          \<lparr>request = Item MNone None (Some [''name''])
                        (Some [Item (MRef ''Person'') None (Some [''name'']) None None])
                        (Some [''Label'']),
           order_by = None\<rparr>)"
proof -
  have closed: "initVirtualFields tasks = Some (Returns tasks_closed)"
    by code_simp
  have expanded: "beforeFindHook True mergeOrders tasks_closed ''Task''
        \<lparr>request = Item MNone None (Some [''Label'']) None (Some []), order_by = None\<rparr>
      = Some (Returns
          \<lparr>request = Item MNone None (Some [''name''])
                        (Some [Item (MRef ''Person'') None (Some [''name'']) None None])
                        (Some [''Label'']),
           order_by = None\<rparr>)"
    by code_simp
  from closed expanded show ?thesis by (rule conjI)
qed




section \<open>Errors during initialisation\<close>

lemma parse_fields_throws:
  "parse_fields s modelName fs = Throws e s' \<Longrightarrow>
     \<exists>before fieldName f rest s1 f'.
        fs = before @ (fieldName, f) # rest \<and> ftype f = VIRTUAL
        \<and> parse_fields s modelName before = Returns s1
        \<and> parseField s1 f fieldName modelName = Throws e f'
        \<and> s' = set_field s1 modelName fieldName f'"
proof (induction fs arbitrary: s)
  case Nil
  then show ?case by simp
next
  case (Cons entry fs)
  obtain fieldName f where entry: "entry = (fieldName, f)" by (cases entry)
  show ?case
  proof (cases "ftype f = VIRTUAL")
    case False
    with Cons.prems entry have "parse_fields s modelName fs = Throws e s'" by simp
    from Cons.IH [OF this] obtain before fieldName' g rest s1 g' where
      "fs = before @ (fieldName', g) # rest" "ftype g = VIRTUAL"
      "parse_fields s modelName before = Returns s1"
      "parseField s1 g fieldName' modelName = Throws e g'"
      "s' = set_field s1 modelName fieldName' g'"
      by blast
    then have "entry # fs = (entry # before) @ (fieldName', g) # rest \<and> ftype g = VIRTUAL
        \<and> parse_fields s modelName (entry # before) = Returns s1
        \<and> parseField s1 g fieldName' modelName = Throws e g'
        \<and> s' = set_field s1 modelName fieldName' g'"
      using False entry by simp
    then show ?thesis by blast
  next
    case True
    show ?thesis
    proof (cases "parseField s f fieldName modelName")
      case (Throws e' f')
      with Cons.prems entry True
      have "e' = e" "s' = set_field s modelName fieldName f'" by simp_all
      with Throws True entry
      have "entry # fs = [] @ (fieldName, f) # fs \<and> ftype f = VIRTUAL
        \<and> parse_fields s modelName [] = Returns s
        \<and> parseField s f fieldName modelName = Throws e f'
        \<and> s' = set_field s modelName fieldName f'"
        by simp
      then show ?thesis by blast
    next
      case (Returns f')
      with Cons.prems entry True
      have "parse_fields (set_field s modelName fieldName f') modelName fs = Throws e s'"
        by simp
      from Cons.IH [OF this] obtain before fieldName' g rest s1 g' where
        "fs = before @ (fieldName', g) # rest" "ftype g = VIRTUAL"
        "parse_fields (set_field s modelName fieldName f') modelName before = Returns s1"
        "parseField s1 g fieldName' modelName = Throws e g'"
        "s' = set_field s1 modelName fieldName' g'"
        by blast
      then have "entry # fs = (entry # before) @ (fieldName', g) # rest \<and> ftype g = VIRTUAL
        \<and> parse_fields s modelName (entry # before) = Returns s1
        \<and> parseField s1 g fieldName' modelName = Throws e g'
        \<and> s' = set_field s1 modelName fieldName' g'"
        using True entry Returns by simp
      then show ?thesis by blast
    qed
  qed
qed

lemma parse_models_throws:
  "parse_models s models = Throws e s' \<Longrightarrow>
     \<exists>earlier modelName m later s0.
        models = earlier @ (modelName, m) # later
        \<and> parse_models s earlier = Returns s0
        \<and> parse_fields s0 modelName (attributes m) = Throws e s'"
proof (induction models arbitrary: s)
  case Nil
  then show ?case by simp
next
  case (Cons entry models)
  obtain modelName m where entry: "entry = (modelName, m)" by (cases entry)
  show ?case
  proof (cases "parse_fields s modelName (attributes m)")
    case (Throws e' s'')
    with Cons.prems entry have "e' = e" "s'' = s'" by simp_all
    with Throws entry
    have "entry # models = [] @ (modelName, m) # models
        \<and> parse_models s [] = Returns s
        \<and> parse_fields s modelName (attributes m) = Throws e s'"
      by simp
    then show ?thesis by blast
  next
    case (Returns s'')
    with Cons.prems entry have "parse_models s'' models = Throws e s'" by simp
    from Cons.IH [OF this] obtain earlier modelName' m' later s0 where
      "models = earlier @ (modelName', m') # later"
      "parse_models s'' earlier = Returns s0"
      "parse_fields s0 modelName' (attributes m') = Throws e s'"
      by blast
    then have "entry # models = (entry # earlier) @ (modelName', m') # later
        \<and> parse_models s (entry # earlier) = Returns s0
        \<and> parse_fields s0 modelName' (attributes m') = Throws e s'"
      using entry Returns by simp
    then show ?thesis by blast
  qed
qed

text \<open>
  Claim C9, as stated, at a concrete registry: the second virtual field names a missing
  attribute. Initialisation throws, and the registry is left with the first virtual
  field normalised and the second one as declared.
\<close>

theorem initVirtualFields_no_rollback_counterexample:
  "initVirtualFields halfway
     = Some (Throws (AttributeNonexistentField ''T'' ''Bad'' ''T'' ''missing'') halfway_left)
   \<and> halfway_left \<noteq> halfway
   \<and> lookup_field halfway_left ''T'' ''Good''
       = Some (virtual_field (Some []) None (Some [ArrOrder [OStr ''n'', OStr ''ASC'']]))
   \<and> lookup_field halfway_left ''T'' ''Bad'' = lookup_field halfway ''T'' ''Bad''"
proof -
  have 1: "initVirtualFields halfway
     = Some (Throws (AttributeNonexistentField ''T'' ''Bad'' ''T'' ''missing'') halfway_left)"
    by code_simp
  have 2: "halfway_left \<noteq> halfway"
    by (simp add: halfway_left_def halfway_def virtual_field_def)
  have 3: "lookup_field halfway_left ''T'' ''Good''
       = Some (virtual_field (Some []) None (Some [ArrOrder [OStr ''n'', OStr ''ASC'']]))"
    by code_simp
  have 4: "lookup_field halfway_left ''T'' ''Bad'' = lookup_field halfway ''T'' ''Bad''"
    by code_simp
  from 1 2 3 4 show ?thesis by blast
qed

text \<open>
  Claim C9, amended. Initialisation fails with the first error of its three passes and
  runs nothing after it, and nothing is rolled back: when parsing fails, at a virtual
  field \<open>f\<close>, the registry is left as parsing the fields before \<open>f\<close> made it, with \<open>f\<close> as
  far as it was rewritten when the exception was thrown; an error of a later pass leaves
  the registry as that pass had it.
\<close>

theorem initVirtualFields_stops_at_first_error:
  "(parse_all s = Throws e s' \<longrightarrow>
      initVirtualFields s = Some (Throws e s')
      \<and> (\<exists>earlier modelName m later s0 before fieldName f rest s1 f'.
            s = earlier @ (modelName, m) # later
            \<and> parse_models s earlier = Returns s0
            \<and> attributes m = before @ (fieldName, f) # rest \<and> ftype f = VIRTUAL
            \<and> parse_fields s0 modelName before = Returns s1
            \<and> parseField s1 f fieldName modelName = Throws e f'
            \<and> s' = set_field s1 modelName fieldName f'))
   \<and> (parse_all s = Returns parsed \<and> inheritInclude parsed = Some (Throws e s') \<longrightarrow>
        initVirtualFields s = Some (Throws e s'))
   \<and> (parse_all s = Returns parsed \<and> inheritInclude parsed = Some (Returns merged)
        \<and> inheritOrder merged = Throws e s' \<longrightarrow>
        initVirtualFields s = Some (Throws e s'))
   \<and> (initVirtualFields s = Some (Throws e s') \<longrightarrow>
        parse_all s = Throws e s'
        \<or> (\<exists>parsed. parse_all s = Returns parsed
              \<and> (inheritInclude parsed = Some (Throws e s')
                  \<or> (\<exists>merged. inheritInclude parsed = Some (Returns merged)
                        \<and> inheritOrder merged = Throws e s'))))"
proof -
  have first: "\<exists>earlier modelName m later s0 before fieldName f rest s1 f'.
            s = earlier @ (modelName, m) # later
            \<and> parse_models s earlier = Returns s0
            \<and> attributes m = before @ (fieldName, f) # rest \<and> ftype f = VIRTUAL
            \<and> parse_fields s0 modelName before = Returns s1
            \<and> parseField s1 f fieldName modelName = Throws e f'
            \<and> s' = set_field s1 modelName fieldName f'"
    if "parse_all s = Throws e s'"
  proof -
    from that have "parse_models s s = Throws e s'" by (simp add: parse_all_def)
    from parse_models_throws [OF this] obtain earlier modelName m later s0 where
      models: "s = earlier @ (modelName, m) # later" "parse_models s earlier = Returns s0"
      and failing: "parse_fields s0 modelName (attributes m) = Throws e s'"
      by blast
    from parse_fields_throws [OF failing] models show ?thesis by blast
  qed
  have last: "parse_all s = Throws e s'
        \<or> (\<exists>parsed. parse_all s = Returns parsed
              \<and> (inheritInclude parsed = Some (Throws e s')
                  \<or> (\<exists>merged. inheritInclude parsed = Some (Returns merged)
                        \<and> inheritOrder merged = Throws e s')))"
    if "initVirtualFields s = Some (Throws e s')"
    using that
    by (auto simp: initVirtualFields_def split: outcome.splits Option.bind_splits)
  show ?thesis
    using first last by (auto simp: initVirtualFields_def)
qed

theorem initVirtualFields_stops_at_first_error_witness:
  "initVirtualFields halfway
     = Some (Throws (AttributeNonexistentField ''T'' ''Bad'' ''T'' ''missing'') halfway_left)"
proof -
  have "parse_all halfway
     = Throws (AttributeNonexistentField ''T'' ''Bad'' ''T'' ''missing'') halfway_left"
    by code_simp
  then show ?thesis
    using initVirtualFields_stops_at_first_error
      [of halfway "AttributeNonexistentField ''T'' ''Bad'' ''T'' ''missing''" halfway_left]
    by blast
qed

section \<open>Circular dependencies\<close>

subsection \<open>The sort fails exactly on a cycle\<close>

lemma gather_Inl: "gather f xs = Inl c \<Longrightarrow> \<exists>x \<in> set xs. f x = Inl c"
  by (induction xs arbitrary: c) (auto split: sum.splits)

lemma gather_Inr: "gather f xs = Inr ys \<Longrightarrow> \<forall>x \<in> set xs. \<exists>zs. f x = Inr zs"
  by (induction xs arbitrary: ys) (auto split: sum.splits)

lemma outgoing_edge: "x \<in> set (outgoing edges n) \<longleftrightarrow> (n, x) \<in> set edges"
  by (force simp: outgoing_def)

lemma visit_Inl_cycle:
  "visit edges predecessors n = Inl c \<Longrightarrow> \<forall>p \<in> set predecessors. (p, n) \<in> (set edges)\<^sup>+
     \<Longrightarrow> (c, c) \<in> (set edges)\<^sup>+"
proof (induction edges predecessors n rule: visit.induct)
  case (1 edges predecessors n)
  show ?case
  proof (cases "n \<in> set predecessors")
    case True
    with "1.prems" show ?thesis
      by (subst (asm) visit.simps) auto
  next
    case False
    with "1.prems"(1) have "gather (visit edges (n # predecessors)) (outgoing edges n) = Inl c"
      by (subst (asm) visit.simps) (auto split: sum.splits)
    then obtain x where x: "x \<in> set (outgoing edges n)"
      and found: "visit edges (n # predecessors) x = Inl c"
      using gather_Inl by fastforce
    have step: "(n, x) \<in> set edges" using x by (simp add: outgoing_edge)
    have "\<forall>p \<in> set (n # predecessors). (p, x) \<in> (set edges)\<^sup>+"
      using "1.prems"(2) step by (auto intro: trancl_into_trancl)
    with "1.IH" [OF False x found] show ?thesis .
  qed
qed

lemma visit_Inr_acyclic:
  "visit edges predecessors n = Inr ys \<Longrightarrow> (n, c) \<in> (set edges)\<^sup>* \<Longrightarrow> (c, c) \<notin> (set edges)\<^sup>+"
proof (induction edges predecessors n arbitrary: ys c rule: visit.induct)
  case (1 edges predecessors n)
  from "1.prems"(1) have fresh: "n \<notin> set predecessors"
    by (subst (asm) visit.simps) (auto split: if_splits)
  with "1.prems"(1) obtain below where
    "gather (visit edges (n # predecessors)) (outgoing edges n) = Inr below"
    by (subst (asm) visit.simps) (auto split: sum.splits)
  then have children: "\<forall>x \<in> set (outgoing edges n). \<exists>zs. visit edges (n # predecessors) x = Inr zs"
    by (rule gather_Inr)
  show ?case
  proof
    assume cycle: "(c, c) \<in> (set edges)\<^sup>+"
    have "\<exists>x. (n, x) \<in> set edges \<and> (x, c) \<in> (set edges)\<^sup>*"
    proof (cases "n = c")
      case True
      with cycle show ?thesis by (auto dest: tranclD)
    next
      case False
      with "1.prems"(2) show ?thesis by (auto elim: converse_rtranclE)
    qed
    then obtain x where step: "(n, x) \<in> set edges" and reach: "(x, c) \<in> (set edges)\<^sup>*"
      by blast
    from step have x: "x \<in> set (outgoing edges n)" by (simp add: outgoing_edge)
    with children obtain zs where "visit edges (n # predecessors) x = Inr zs" by blast
    from "1.IH" [OF fresh x this reach] cycle show False by contradiction
  qed
qed

lemma set_uniqueNodes: "set (uniqueNodes edges) = fst ` set edges \<union> snd ` set edges"
  by (auto simp: uniqueNodes_def set_baseUniq)

lemma toposort_Inl: "toposort edges = Inl c \<Longrightarrow> (c, c) \<in> (set edges)\<^sup>+"
proof -
  assume "toposort edges = Inl c"
  then have "gather (visit edges []) (uniqueNodes edges) = Inl c"
    by (auto simp: toposort_def split: sum.splits)
  then obtain n where "visit edges [] n = Inl c"
    using gather_Inl by fastforce
  then show ?thesis by (rule visit_Inl_cycle) simp
qed

lemma toposort_Inr: "toposort edges = Inr nodes \<Longrightarrow> (c, c) \<notin> (set edges)\<^sup>+"
proof
  assume sorted: "toposort edges = Inr nodes" and cycle: "(c, c) \<in> (set edges)\<^sup>+"
  from cycle obtain x where "(c, x) \<in> set edges" by (auto dest: tranclD)
  then have "c \<in> set (uniqueNodes edges)" by (force simp: set_uniqueNodes)
  moreover from sorted obtain found where
    "gather (visit edges []) (uniqueNodes edges) = Inr found"
    by (auto simp: toposort_def split: sum.splits)
  ultimately obtain zs where "visit edges [] c = Inr zs"
    using gather_Inr by fastforce
  from visit_Inr_acyclic [OF this rtrancl.rtrancl_refl] cycle show False by contradiction
qed

lemma toposort_dependents_cyclic:
  "(\<exists>c. toposort_dependents edges = Inl c) \<longleftrightarrow> (\<exists>c. (c, c) \<in> (set edges)\<^sup>+)"
  "toposort_dependents edges = Inl c \<Longrightarrow> (c, c) \<in> (set edges)\<^sup>+"
proof -
  show inl: "toposort_dependents edges = Inl c \<Longrightarrow> (c, c) \<in> (set edges)\<^sup>+" for c
    by (auto simp: toposort_dependents_def split: sum.splits dest: toposort_Inl)
  show "(\<exists>c. toposort_dependents edges = Inl c) \<longleftrightarrow> (\<exists>c. (c, c) \<in> (set edges)\<^sup>+)"
  proof
    assume "\<exists>c. toposort_dependents edges = Inl c"
    with inl show "\<exists>c. (c, c) \<in> (set edges)\<^sup>+" by blast
  next
    assume cyclic: "\<exists>c. (c, c) \<in> (set edges)\<^sup>+"
    show "\<exists>c. toposort_dependents edges = Inl c"
    proof (cases "toposort edges")
      case (Inl c)
      then show ?thesis by (simp add: toposort_dependents_def)
    next
      case (Inr nodes)
      from cyclic obtain c where "(c, c) \<in> (set edges)\<^sup>+" by blast
      with toposort_Inr [OF Inr, of c] show ?thesis by contradiction
    qed
  qed
qed

subsection \<open>No other step reports a circular dependency\<close>

lemma throws_circular_simps [simp]:
  "throws_circular (Returns x) = False"
  "throws_circular (Throws e x) = circular e"
  by (simp_all add: throws_circular_def)

lemma circular_simps [simp]:
  "circular (CircularDependency m f)" "circular (CircularDependencyOrder m f)"
  "\<not> circular TypeError" "\<not> circular (AttributeNonexistentField a b c d)"
  "\<not> circular (OrderNonexistentField a b c d)" "\<not> circular (InvalidClause t a b)"
  "\<not> circular (UnknownModel t a b c)" "\<not> circular (InvalidAssociation t a b c d al)"
  "\<not> circular (InvalidOrder a b)" "\<not> circular (NoOrderClause a b c d)"
  "\<not> circular (FieldDoesNotExist a b)" "\<not> circular InvalidOrderClause"
  by (simp_all add: circular_def)

lemma parseClause_plain: "\<not> throws_circular (parseClause s t modelName fieldName parent m a)"
  by (simp add: parseClause_def split: mref.splits option.splits)

lemma parseInclude_plain:
  "\<not> throws_circular (parseInclude s fieldName modelName parent i)"
  "\<not> throws_circular (parseInclude_each s fieldName modelName parent is)"
proof (induction s fieldName modelName parent i and s fieldName modelName parent "is"
       rule: parseInclude_parseInclude_each.induct)
  case (1 s fieldName modelName parent m a attrs inc v)
  show ?case
  proof (cases inc)
    case None
    then show ?thesis
      by (simp add: check_attributes_def split: option.splits)
  next
    case (Some incs)
    show ?thesis
    proof (cases attrs)
      case None
      with Some "1.IH"(1) [OF None Some] show ?thesis
        by (auto split: outcome.splits)
    next
      case attrs: (Some as)
      show ?thesis
      proof (cases "check_attributes s fieldName modelName parent as")
        case None
        with Some attrs "1.IH"(2) [OF attrs None Some] show ?thesis
          by (auto split: outcome.splits)
      next
        case (Some e)
        then have "\<not> circular e"
          by (auto simp: check_attributes_def split: option.splits)
        with Some attrs show ?thesis by simp
      qed
    qed
  qed
next
  case (2 s fieldName modelName parent)
  show ?case by simp
next
  case (3 s fieldName modelName parent m a attrs inc v rest)
  show ?case
  proof (cases "parseClause s Include modelName fieldName parent m a")
    case (Throws e m')
    with parseClause_plain [of s Include modelName fieldName parent m a] show ?thesis
      by simp
  next
    case (Returns m')
    show ?thesis
    proof (cases "parseInclude s fieldName modelName (model_name m') (Item m' a attrs inc v)")
      case (Throws e i')
      with Returns "3.IH"(1) [OF Returns] show ?thesis by simp
    next
      case inner: (Returns i')
      with Returns "3.IH"(2) [OF Returns inner] show ?thesis
        by (auto split: outcome.splits)
    qed
  qed
qed

lemma parseOrder_path_plain:
  "\<not> throws_circular (parseOrder_path s modelName fieldName parent path)"
proof (induction s modelName fieldName parent path rule: parseOrder_path.induct)
  case (1 s modelName fieldName parent)
  show ?case by simp
next
  case (2 s modelName fieldName parent r rest)
  show ?case by simp
next
  case (3 s modelName fieldName parent n rest)
  show ?case
  proof (cases "parseClause s Order modelName fieldName parent (MName n) None")
    case (Throws e m')
    with parseClause_plain [of s Order modelName fieldName parent "MName n" None]
    show ?thesis by simp
  next
    case (Returns m')
    with "3.IH" [OF Returns] show ?thesis
      by (auto split: outcome.splits)
  qed
next
  case (4 s modelName fieldName parent m a rest)
  show ?case
  proof (cases "parseClause s Order modelName fieldName parent m a")
    case (Throws e m')
    with parseClause_plain [of s Order modelName fieldName parent m a]
    show ?thesis by simp
  next
    case (Returns m')
    with "4.IH" [OF Returns] show ?thesis
      by (auto split: outcome.splits)
  qed
qed

lemma parseOrder_direction_plain:
  "parseOrder_direction modelName fieldName order = Inl e \<Longrightarrow> \<not> circular e"
  by (auto simp: parseOrder_direction_def split: if_splits oelem.splits)

lemma parseOrder_array_plain:
  "\<not> throws_circular (parseOrder_array s modelName fieldName order)"
proof (cases "parseOrder_direction modelName fieldName order")
  case (Inl e)
  with parseOrder_direction_plain [OF Inl] show ?thesis
    by (simp add: parseOrder_array_def)
next
  case (Inr order')
  show ?thesis
  proof (cases "parseOrder_path s modelName fieldName modelName (take (length order' - 2) order')")
    case (Throws e p)
    with parseOrder_path_plain [of s modelName fieldName modelName "take (length order' - 2) order'"]
    have "\<not> circular e" by simp
    with Inr Throws show ?thesis
      by (cases p) (simp add: parseOrder_array_def)
  next
    case (Returns p)
    with Inr show ?thesis
      by (cases p) (simp add: parseOrder_array_def split: oelem.splits)
  qed
qed

lemma parseOrder_entry_plain:
  "\<not> throws_circular (parseOrder_entry s modelName fieldName order)"
  using parseOrder_array_plain
  by (cases order) (simp_all add: parseOrder_entry_def)

lemma parseOrder_each_plain:
  "\<not> throws_circular (parseOrder_each s modelName fieldName orders)"
proof (induction orders)
  case Nil
  show ?case by simp
next
  case (Cons order rest)
  show ?case
  proof (cases "parseOrder_entry s modelName fieldName order")
    case (Throws e order')
    with parseOrder_entry_plain [of s modelName fieldName order] show ?thesis by simp
  next
    case (Returns order')
    with Cons show ?thesis by (auto split: outcome.splits)
  qed
qed

lemma parseOrder_plain: "\<not> throws_circular (parseOrder s fieldName modelName orders)"
proof (cases orders)
  case None
  then show ?thesis by (simp add: parseOrder_def)
next
  case (Some os)
  with parseOrder_each_plain [of s modelName fieldName os] show ?thesis
    by (auto simp: parseOrder_def split: outcome.splits)
qed

lemma parseField_plain: "\<not> throws_circular (parseField s f fieldName modelName)"
proof (cases "parseInclude s fieldName modelName modelName (clauses f)")
  case (Throws e c)
  with parseInclude_plain(1) [of s fieldName modelName modelName "clauses f"] show ?thesis
    by (simp add: parseField_def)
next
  case (Returns c)
  with parseOrder_plain [of s fieldName modelName "order_of f"] show ?thesis
    by (auto simp: parseField_def split: outcome.splits)
qed

lemma parse_fields_plain: "\<not> throws_circular (parse_fields s modelName fs)"
proof (induction fs arbitrary: s)
  case Nil
  show ?case by simp
next
  case (Cons entry fs)
  obtain fieldName f where entry: "entry = (fieldName, f)" by (cases entry)
  show ?case
  proof (cases "parseField s f fieldName modelName")
    case (Throws e f')
    with parseField_plain [of s f fieldName modelName] entry Cons show ?thesis by simp
  next
    case (Returns f')
    with entry Cons show ?thesis by simp
  qed
qed

lemma parse_models_plain: "\<not> throws_circular (parse_models s ms)"
proof (induction ms arbitrary: s)
  case Nil
  show ?case by simp
next
  case (Cons entry ms)
  obtain modelName m where entry: "entry = (modelName, m)" by (cases entry)
  show ?case
  proof (cases "parse_fields s modelName (attributes m)")
    case (Throws e s')
    with parse_fields_plain [of s modelName "attributes m"] entry show ?thesis by simp
  next
    case (Returns s')
    with entry Cons show ?thesis by simp
  qed
qed

lemma parse_all_plain: "parse_all s = Throws e s' \<Longrightarrow> \<not> circular e"
  using parse_models_plain [of s s] by (simp add: parse_all_def)

lemma findVirtual_attributes_plain:
  "findVirtual_attributes s source thisModel attrs = Inl e \<Longrightarrow> e = TypeError"
  by (induction attrs arbitrary: e) (auto split: option.splits sum.splits)

lemma findVirtual_plain:
  "findVirtual s source i thisModel = Inl e \<Longrightarrow> e = TypeError"
  "findVirtual_each s source is = Inl e \<Longrightarrow> e = TypeError"
proof (induction s source i thisModel and s source "is" arbitrary: e and e
       rule: findVirtual_findVirtual_each.induct)
  case (1 s source m a attrs inc v thisModel)
  show ?case
  proof (cases "findVirtual_attributes s source thisModel (case attrs of None \<Rightarrow> [] | Some as \<Rightarrow> as)")
    case (Inl e')
    with "1.prems" findVirtual_attributes_plain [OF Inl] show ?thesis by simp
  next
    case (Inr edges)
    show ?thesis
    proof (cases inc)
      case None
      with Inr "1.prems" show ?thesis by simp
    next
      case (Some incs)
      with Inr "1.prems" have "findVirtual_each s source incs = Inl e"
        by (simp split: sum.splits)
      with "1.IH" [OF Inr Some] show ?thesis .
    qed
  qed
next
  case (2 s source)
  then show ?case by simp
next
  case (3 s source inc1 rest)
  show ?case
  proof (cases "findVirtual s source inc1 (model_of inc1)")
    case (Inl e')
    with "3.prems" "3.IH"(1) [of e'] show ?thesis by simp
  next
    case (Inr edges)
    with "3.prems" have "findVirtual_each s source rest = Inl e"
      by (simp split: sum.splits)
    with "3.IH"(2) [OF Inr] show ?thesis .
  qed
qed

lemma gather_plain:
  assumes "gather f xs = Inl e" and "\<And>x e. f x = Inl e \<Longrightarrow> e = TypeError"
  shows "e = TypeError"
  using gather_Inl [OF assms(1)] assms(2) by blast

lemma attribute_dependencies_plain: "attribute_dependencies s = Inl e \<Longrightarrow> e = TypeError"
  unfolding attribute_dependencies_def
  apply (erule gather_plain)
  apply clarsimp
  apply (erule gather_plain)
  apply (clarsimp split: if_splits)
  apply (erule findVirtual_plain(1))
  done

lemma order_dependencies_plain: "order_dependencies s = Inl e \<Longrightarrow> e = TypeError"
  unfolding order_dependencies_def
  apply (erule gather_plain)
  apply clarsimp
  apply (erule gather_plain)
  apply (clarsimp split: if_splits option.splits)
  apply (erule gather_plain)
  apply (clarsimp split: option.splits)
  done

lemma mergeVirtual_attributes_plain:
  assumes "mergeVirtual_attributes s model i field = Some r"
  shows "\<not> throws_circular r"
proof (rule mergeVirtual_attributes.raw_induct
         [where P = "\<lambda>s model i field r. \<not> throws_circular r", OF _ assms], goal_cases)
  case (1 loop s model i field r)
  then show ?case
    by (auto split: option.splits if_splits)
qed

lemma forEach_items_plain:
  "forEach_items f xs = Some r \<Longrightarrow> (\<And>x y. f x = Some y \<Longrightarrow> \<not> throws_circular y)
     \<Longrightarrow> \<not> throws_circular r"
proof (induction xs arbitrary: r)
  case Nil
  then show ?case by auto
next
  case (Cons x xs)
  from Cons.prems(1) obtain y where y: "f x = Some y"
    by (auto split: Option.bind_splits)
  show ?case
  proof (cases y)
    case (Throws e x')
    with y Cons.prems(1) Cons.prems(2) [OF y] show ?thesis by auto
  next
    case (Returns x')
    with y Cons.prems(1) obtain rs where rs: "forEach_items f xs = Some rs"
      by (auto split: Option.bind_splits)
    from Cons.IH [OF rs Cons.prems(2)] have "\<not> throws_circular rs" by simp
    with y Returns rs Cons.prems(1) show ?thesis
      by (auto split: outcome.splits)
  qed
qed

lemma mergeVirtual_plain:
  assumes "mergeVirtual s field model = Some r"
  shows "\<not> throws_circular r"
proof (rule mergeVirtual.raw_induct
         [where P = "\<lambda>s field model r. \<not> throws_circular r", OF _ assms], goal_cases)
  case (1 rec s field model r)
  note hyps = "1"(2) and IH = "1"(1)
  from hyps obtain own where
    own: "mergeVirtual_attributes s model 0 field = Some own"
    by (auto split: Option.bind_splits)
  show ?case
  proof (cases own)
    case (Throws e field')
    with hyps own mergeVirtual_attributes_plain [OF own] show ?thesis by auto
  next
    case (Returns field')
    show ?thesis
    proof (cases "include_of field'")
      case None
      with hyps own Returns show ?thesis by auto
    next
      case (Some incs)
      with hyps own Returns obtain rs where
        rs: "forEach_items (\<lambda>include. rec s include (model_of include)) incs = Some rs"
        by (auto split: Option.bind_splits)
      have "\<not> throws_circular rs"
        using rs IH by (rule forEach_items_plain)
      with hyps own Returns Some rs show ?thesis
        by (auto split: outcome.splits)
    qed
  qed
qed

lemma inheritInclude_each_plain:
  "inheritInclude_each s dependents = Some r \<Longrightarrow> \<not> throws_circular r"
proof (induction dependents arbitrary: s)
  case Nil
  then show ?case by auto
next
  case (Cons d ds)
  show ?case
  proof (cases "lookup_field s (fst d) (snd d)")
    case None
    with Cons.prems show ?thesis by auto
  next
    case (Some f)
    with Cons.prems obtain mr where
      mr: "mergeVirtual s (clauses f) (MRef (fst d)) = Some mr"
      by (auto split: Option.bind_splits)
    show ?thesis
    proof (cases mr)
      case (Throws e c)
      with Cons.prems Some mr mergeVirtual_plain [OF mr] show ?thesis by auto
    next
      case (Returns c)
      with Cons.prems Some mr
      have "inheritInclude_each (set_field s (fst d) (snd d) (f\<lparr>clauses := c\<rparr>)) ds = Some r"
        by simp
      then show ?thesis by (rule Cons.IH)
    qed
  qed
qed

lemma inheritOrder_replace_plain:
  "\<not> throws_circular (inheritOrder_replace s modelName fieldName i orders)"
proof (induction s modelName fieldName i orders rule: inheritOrder_replace.induct)
  case (1 s modelName fieldName i orders)
  show ?case
  proof (cases "i < length orders")
    case False
    then show ?thesis by (subst inheritOrder_replace.simps) simp
  next
    case inside: True
    show ?thesis
    proof (cases "order_target s modelName (orders ! i)")
      case None
      with inside show ?thesis by (subst inheritOrder_replace.simps) simp
    next
      case (Some target)
      obtain fm fn ff where target: "target = (fm, fn, ff)" by (cases target)
      show ?thesis
      proof (cases "ftype ff = VIRTUAL")
        case False
        with inside Some target "1.IH"(1) [OF inside Some [unfolded target] refl refl False]
        show ?thesis by (subst inheritOrder_replace.simps) simp
      next
        case True
        show ?thesis
        proof (cases "order_of ff")
          case None
          with inside Some target True show ?thesis
            by (subst inheritOrder_replace.simps) simp
        next
          case fromOrders: (Some fromOrders)
          show ?thesis
          proof (cases "length fromOrders = 0")
            case True
            with inside Some target \<open>ftype ff = VIRTUAL\<close> fromOrders show ?thesis
              by (subst inheritOrder_replace.simps) simp
          next
            case False
            show ?thesis
            proof (cases "substitute (orders ! i) fromOrders")
              case None
              with inside Some target \<open>ftype ff = VIRTUAL\<close> fromOrders False show ?thesis
                by (subst inheritOrder_replace.simps) simp
            next
              case inserted: (Some inserted)
              have "\<not> ftype ff \<noteq> VIRTUAL" using \<open>ftype ff = VIRTUAL\<close> by simp
              from "1.IH"(2) [OF inside Some [unfolded target] refl refl this fromOrders False inserted]
                inside Some target \<open>ftype ff = VIRTUAL\<close> fromOrders False inserted
              show ?thesis
                by (subst inheritOrder_replace.simps) simp
            qed
          qed
        qed
      qed
    qed
  qed
qed

lemma inheritOrder_each_plain: "\<not> throws_circular (inheritOrder_each s dependents)"
proof (induction dependents arbitrary: s)
  case Nil
  show ?case by simp
next
  case (Cons d ds)
  show ?case
  proof (cases "lookup_field s (fst d) (snd d)")
    case None
    then show ?thesis by simp
  next
    case (Some f)
    show ?thesis
    proof (cases "order_of f")
      case None
      with Some show ?thesis by simp
    next
      case orders: (Some orders)
      show ?thesis
      proof (cases "inheritOrder_replace s (fst d) (snd d) 0 orders")
        case (Throws e orders')
        with Some orders inheritOrder_replace_plain [of s "fst d" "snd d" 0 orders]
        show ?thesis by simp
      next
        case (Returns orders')
        with Some orders Cons.IH show ?thesis by simp
      qed
    qed
  qed
qed

lemma inheritInclude_circular:
  assumes "inheritInclude s = Some (Throws e s')" and "circular e"
  shows "\<exists>deps c. attribute_dependencies s = Inr deps \<and> toposort_dependents deps = Inl c
           \<and> e = CircularDependency (fst c) (snd c) \<and> s' = s"
proof (cases "attribute_dependencies s")
  case (Inl e')
  with assms attribute_dependencies_plain [OF Inl] show ?thesis
    by (simp add: inheritInclude_def)
next
  case (Inr deps)
  show ?thesis
  proof (cases "toposort_dependents deps")
    case (Inl c)
    with Inr assms show ?thesis by (auto simp: inheritInclude_def)
  next
    case sorted: (Inr nodes)
    with Inr assms(1) have "inheritInclude_each s (rev nodes) = Some (Throws e s')"
      by (simp add: inheritInclude_def)
    from inheritInclude_each_plain [OF this] assms(2) show ?thesis by simp
  qed
qed

lemma inheritOrder_circular:
  assumes "inheritOrder s = Throws e s'" and "circular e"
  shows "\<exists>deps c. order_dependencies s = Inr deps \<and> toposort_dependents deps = Inl c
           \<and> e = CircularDependencyOrder (fst c) (snd c) \<and> s' = s"
proof (cases "order_dependencies s")
  case (Inl e')
  with assms order_dependencies_plain [OF Inl] show ?thesis
    by (simp add: inheritOrder_def)
next
  case (Inr deps)
  show ?thesis
  proof (cases "toposort_dependents deps")
    case (Inl c)
    with Inr assms show ?thesis by (auto simp: inheritOrder_def)
  next
    case sorted: (Inr nodes)
    with Inr assms(1) have "inheritOrder_each s (rev nodes) = Throws e s'"
      by (simp add: inheritOrder_def)
    with inheritOrder_each_plain [of s "rev nodes"] assms(2) show ?thesis by simp
  qed
qed

lemma initVirtualFields_circular:
  assumes "initVirtualFields s = Some (Throws e s')" and "circular e"
  shows "(\<exists>deps c. parse_all s = Returns s' \<and> attribute_dependencies s' = Inr deps
            \<and> toposort_dependents deps = Inl c \<and> e = CircularDependency (fst c) (snd c))
         \<or> (\<exists>parsed deps c. parse_all s = Returns parsed
            \<and> inheritInclude parsed = Some (Returns s') \<and> order_dependencies s' = Inr deps
            \<and> toposort_dependents deps = Inl c \<and> e = CircularDependencyOrder (fst c) (snd c))"
proof (cases "parse_all s")
  case (Throws e' s'')
  with assms parse_all_plain [OF Throws] show ?thesis
    by (simp add: initVirtualFields_def)
next
  case (Returns parsed)
  with assms(1) obtain r where r: "inheritInclude parsed = Some r"
    by (auto simp: initVirtualFields_def split: Option.bind_splits)
  show ?thesis
  proof (cases r)
    case (Throws e' s'')
    with Returns r assms(1) have "inheritInclude parsed = Some (Throws e s')"
      by (simp add: initVirtualFields_def)
    from inheritInclude_circular [OF this assms(2)] Returns show ?thesis by blast
  next
    case merged: (Returns merged)
    with Returns r assms(1) have "inheritOrder merged = Throws e s'"
      by (simp add: initVirtualFields_def)
    from inheritOrder_circular [OF this assms(2)] Returns r merged show ?thesis by blast
  qed
qed

subsection \<open>The attribute closure leaves the graph of order references as it is\<close>

lemma update_same_image:
  "map_of al k = Some old \<Longrightarrow> g v = g old \<Longrightarrow>
     map (\<lambda>(k, v). (k, g v)) (AList.update k v al) = map (\<lambda>(k, v). (k, g v)) al"
  by (induction al) (auto split: if_splits)

lemma set_field_outline:
  assumes "lookup_field s m f = Some old"
  shows "outline (set_field s m f (old\<lparr>clauses := c\<rparr>)) = outline s"
proof -
  from assms obtain mdef where mdef: "map_of s m = Some mdef"
    and old: "map_of (attributes mdef) f = Some old"
    by (auto simp: lookup_field_def split: option.splits)
  let ?g = "\<lambda>m. map (\<lambda>(k, f). (k, ftype f, order_of f)) (attributes m)"
  have inner: "?g (mdef\<lparr>attributes := AList.update f (old\<lparr>clauses := c\<rparr>) (attributes mdef)\<rparr>) = ?g mdef"
    using update_same_image [OF old, of "\<lambda>f. (ftype f, order_of f)" "old\<lparr>clauses := c\<rparr>"]
    by simp
  show ?thesis
    unfolding outline_def set_field_def mdef option.case
    by (rule update_same_image [OF mdef inner])
qed

lemma inheritInclude_each_outline:
  "inheritInclude_each s dependents = Some r \<Longrightarrow> outline (state_of r) = outline s"
proof (induction dependents arbitrary: s)
  case Nil
  then show ?case by (auto simp: state_of_def)
next
  case (Cons d ds)
  show ?case
  proof (cases "lookup_field s (fst d) (snd d)")
    case None
    with Cons.prems show ?thesis by (auto simp: state_of_def)
  next
    case (Some x)
    from Cons.prems Some obtain mr where
      mr: "mergeVirtual s (clauses x) (MRef (fst d)) = Some mr"
      by (auto split: Option.bind_splits)
    show ?thesis
    proof (cases mr)
      case (Throws e c)
      with Cons.prems Some mr
      have "r = Throws e (set_field s (fst d) (snd d) (x\<lparr>clauses := c\<rparr>))" by simp
      then show ?thesis
        using set_field_outline [OF Some] by (simp add: state_of_def)
    next
      case (Returns c)
      with Cons.prems Some mr
      have "inheritInclude_each (set_field s (fst d) (snd d) (x\<lparr>clauses := c\<rparr>)) ds = Some r"
        by simp
      then have "outline (state_of r) = outline (set_field s (fst d) (snd d) (x\<lparr>clauses := c\<rparr>))"
        by (rule Cons.IH)
      then show ?thesis
        using set_field_outline [OF Some] by simp
    qed
  qed
qed

lemma inheritInclude_outline:
  "inheritInclude s = Some r \<Longrightarrow> outline (state_of r) = outline s"
  using inheritInclude_each_outline
  by (auto simp: inheritInclude_def state_of_def split: sum.splits)

lemma lookup_field_outline:
  "map_option (\<lambda>f. (ftype f, order_of f)) (lookup_field s m k)
     = (case map_of (outline s) m of None \<Rightarrow> None | Some fs \<Rightarrow> map_of fs k)"
  by (simp add: lookup_field_def outline_def map_of_map split: option.splits)

lemma ftype_outline:
  assumes "outline s = outline s'"
  shows "map_option ftype (model_field s m k) = map_option ftype (model_field s' m k)"
proof -
  have "map_option (\<lambda>f. (ftype f, order_of f)) (lookup_field s n k)
      = map_option (\<lambda>f. (ftype f, order_of f)) (lookup_field s' n k)" for n
    by (simp add: lookup_field_outline assms)
  then have "map_option fst (map_option (\<lambda>f. (ftype f, order_of f)) (lookup_field s n k))
      = map_option fst (map_option (\<lambda>f. (ftype f, order_of f)) (lookup_field s' n k))" for n
    by simp
  then have "map_option ftype (lookup_field s n k) = map_option ftype (lookup_field s' n k)" for n
    by (simp add: option.map_comp comp_def)
  then show ?thesis
    by (simp add: model_field_def split: mref.splits)
qed

lemma order_edge_model_field:
  "\<exists>fm fn. \<forall>s. order_edge s modelName fieldName order =
     (if fm = None then Inl TypeError
      else case map_option ftype (model_field s (the fm) fn) of
        None \<Rightarrow> Inl TypeError
      | Some t \<Rightarrow> Inr (if t = VIRTUAL
                       then [((modelName, fieldName), (model_name (the fm), fn))] else []))"
proof (cases order)
  case (RawOrder str)
  show ?thesis
  proof (cases "length str > 2")
    case True
    with RawOrder show ?thesis
      by (intro exI [of _ None]) (simp add: order_edge_def order_target_def)
  next
    case False
    with RawOrder show ?thesis
      by (intro exI [of _ "Some (MRef modelName)"]
                exI [of _ "if length str = 2 then [str ! 0] else ''undefined''"])
         (auto simp: order_edge_def order_target_def Let_def split: option.splits)
  qed
next
  case (ObjOrder r)
  then show ?thesis
    by (intro exI [of _ "Some (MRef modelName)"] exI [of _ "''undefined''"])
       (auto simp: order_edge_def order_target_def split: option.splits)
next
  case (ArrOrder elems)
  then show ?thesis
    by (intro exI [of _ "Some (if length elems > 2
                            then (case elems ! (length elems - 3) of OSeg m a \<Rightarrow> m | _ \<Rightarrow> MNone)
                            else MRef modelName)"]
              exI [of _ "if length elems \<ge> 2 then property_key (elems ! (length elems - 2))
                         else ''undefined''"])
       (auto simp: order_edge_def order_target_def Let_def split: option.splits)
qed

lemma order_edge_outline:
  assumes "outline s = outline s'"
  shows "order_edge s modelName fieldName order = order_edge s' modelName fieldName order"
proof -
  from order_edge_model_field [of modelName fieldName order] obtain fm fn where
    eq: "\<And>s. order_edge s modelName fieldName order =
     (if fm = None then Inl TypeError
      else case map_option ftype (model_field s (the fm) fn) of
        None \<Rightarrow> Inl TypeError
      | Some t \<Rightarrow> Inr (if t = VIRTUAL
                       then [((modelName, fieldName), (model_name (the fm), fn))] else []))"
    by blast
  show ?thesis
    unfolding eq ftype_outline [OF assms] ..
qed

lemma gather_map: "gather f (map h xs) = gather (\<lambda>x. f (h x)) xs"
  by (induction xs) (auto split: sum.splits)

lemma gather_ext: "(\<And>x. f x = g x) \<Longrightarrow> gather f xs = gather g xs"
  by (rule gather_cong) simp_all

lemma order_dependencies_via_outline:
  "order_dependencies s =
     gather (\<lambda>(modelName, fs).
        gather (\<lambda>(fieldName, t, os).
           if t \<noteq> VIRTUAL then Inr []
           else (case os of None \<Rightarrow> Inr []
                 | Some orders \<Rightarrow> gather (order_edge s modelName fieldName) orders)) fs)
       (outline s)"
  unfolding order_dependencies_def outline_def gather_map order_edge_def [abs_def]
  by (intro gather_ext) (auto simp: gather_map split: prod.splits intro!: gather_ext)

lemma order_dependencies_outline:
  assumes "outline s = outline s'"
  shows "order_dependencies s = order_dependencies s'"
  unfolding order_dependencies_via_outline assms
  by (intro gather_ext) (auto simp: order_edge_outline [OF assms] split: prod.splits option.splits intro!: gather_ext)

lemma inheritInclude_order_dependencies:
  "inheritInclude s = Some r \<Longrightarrow> order_dependencies (state_of r) = order_dependencies s"
  by (rule order_dependencies_outline) (rule inheritInclude_outline)

subsection \<open>The edges collected are those of the specification\<close>

lemma findVirtual_attributes_spec:
  "findVirtual_attributes s source thisModel attrs = Inr edges \<Longrightarrow>
     edges = map (Pair source) (map (Pair (model_name thisModel)) (filter (is_derived s thisModel) attrs))"
  by (induction attrs arbitrary: edges)
     (auto simp: is_derived_def split: option.splits sum.splits if_splits)

lemma findVirtual_spec:
  "findVirtual s source i thisModel = Inr edges \<Longrightarrow>
     edges = map (Pair source) (spec_references s thisModel i)"
  "findVirtual_each s source incs = Inr edges \<Longrightarrow>
     edges = map (Pair source) (spec_references_each s incs)"
proof (induction s source i thisModel and s source incs arbitrary: edges and edges
       rule: findVirtual_findVirtual_each.induct)
  case (1 s source m a attrs inc v thisModel)
  from "1.prems" obtain own where
    own: "findVirtual_attributes s source thisModel (case attrs of None \<Rightarrow> [] | Some as \<Rightarrow> as) = Inr own"
    by (auto split: sum.splits)
  note own' = findVirtual_attributes_spec [OF own]
  show ?case
  proof (cases inc)
    case None
    with "1.prems" own own' show ?thesis by simp
  next
    case (Some incs)
    with "1.prems" own obtain below where
      below: "findVirtual_each s source incs = Inr below" and "edges = own @ below"
      by (auto split: sum.splits)
    with "1.IH" [OF own Some below] own' Some show ?thesis by simp
  qed
next
  case (2 s source)
  then show ?case by simp
next
  case (3 s source inc1 rest)
  from "3.prems" obtain first others where
    first: "findVirtual s source inc1 (model_of inc1) = Inr first"
    and others: "findVirtual_each s source rest = Inr others"
    and "edges = first @ others"
    by (auto split: sum.splits)
  with "3.IH"(1) [OF first] "3.IH"(2) [OF first others] show ?case by simp
qed

lemma gather_concat:
  "gather f xs = Inr ys \<Longrightarrow> (\<And>x zs. x \<in> set xs \<Longrightarrow> f x = Inr zs \<Longrightarrow> zs = g x) \<Longrightarrow>
     ys = concat (map g xs)"
proof (induction xs arbitrary: ys)
  case Nil
  then show ?case by simp
next
  case (Cons x xs)
  from Cons.prems(1) obtain a b where a: "f x = Inr a" and b: "gather f xs = Inr b"
    and ys: "ys = a @ b"
    by (auto split: sum.splits)
  have "a = g x" using Cons.prems(2) [of x a] a by simp
  moreover have "b = concat (map g xs)"
    using Cons.IH [OF b] Cons.prems(2) by simp
  ultimately show ?case using ys by simp
qed

lemma attribute_dependencies_spec:
  assumes "attribute_dependencies s = Inr deps"
  shows "deps = spec_attribute_edges s"
  unfolding spec_attribute_edges_def
proof (rule gather_concat [OF assms [unfolded attribute_dependencies_def]], goal_cases)
  case (1 x zs)
  obtain modelName m where x: "x = (modelName, m)" by (cases x)
  from 1(2) have inner: "gather (\<lambda>(fieldName, f).
           if ftype f \<noteq> VIRTUAL then Inr []
           else findVirtual s (modelName, fieldName) (clauses f) (MRef modelName))
         (attributes m) = Inr zs"
    by (simp add: x)
  have "zs = concat (map (\<lambda>(fieldName, f).
           if ftype f = VIRTUAL
           then map (Pair (modelName, fieldName)) (spec_references s (MRef modelName) (clauses f))
           else []) (attributes m))"
  proof (rule gather_concat [OF inner], goal_cases)
    case (1 y ws)
    obtain fieldName f where y: "y = (fieldName, f)" by (cases y)
    from 1(2) show ?case
      by (auto simp: y dest: findVirtual_spec(1) split: if_splits)
  qed
  then show ?case by (simp add: x)
qed

subsection \<open>What parsing leaves of a registry\<close>

lemma kinds_set_field:
  assumes "lookup_field s m k = Some old" and "ftype f = ftype old"
  shows "kinds (set_field s m k f) = kinds s"
proof -
  from assms obtain mdef where mdef: "map_of s m = Some mdef"
    and old: "map_of (attributes mdef) k = Some old"
    by (auto simp: lookup_field_def split: option.splits)
  let ?g = "\<lambda>m. map (\<lambda>(k, f). (k, ftype f)) (attributes m)"
  have inner: "?g (mdef\<lparr>attributes := AList.update k f (attributes mdef)\<rparr>) = ?g mdef"
    using update_same_image [OF old, of ftype f] assms(2) by simp
  show ?thesis
    unfolding kinds_def set_field_def mdef option.case
    by (rule update_same_image [OF mdef inner])
qed

lemma lookup_field_kinds:
  "map_option ftype (lookup_field s m k)
     = (case map_of (kinds s) m of None \<Rightarrow> None | Some fs \<Rightarrow> map_of fs k)"
  by (simp add: lookup_field_def kinds_def map_of_map split: option.splits)

lemma ftype_kinds:
  assumes "kinds s = kinds s'"
  shows "map_option ftype (lookup_field s m k) = map_option ftype (lookup_field s' m k)"
  by (simp add: lookup_field_kinds assms)

lemma exists_kinds:
  assumes "kinds s = kinds s'"
  shows "(lookup_field s m k = None) = (lookup_field s' m k = None)"
  using ftype_kinds [OF assms, of m k] by (metis option.map_disc_iff)

lemma parseClause_Returns:
  "parseClause s clauseType modelName fieldName parent m alias = Returns m' \<Longrightarrow>
     m' = MRef (model_name m)"
  by (auto simp: parseClause_def model_name_def split: mref.splits option.splits if_splits)

lemma parseInclude_model_of:
  "parseInclude s fieldName modelName parent i = Returns i' \<Longrightarrow> model_of i' = model_of i"
  by (cases i) (auto split: option.splits outcome.splits)

lemma check_attributes_None:
  "check_attributes s fieldName modelName parent attrs = None \<Longrightarrow>
     a \<in> set attrs \<Longrightarrow> lookup_field s parent a \<noteq> None"
  by (auto simp: check_attributes_def find_None_iff split: option.splits)

lemma findVirtual_attributes_exist:
  "(\<And>a. a \<in> set attrs \<Longrightarrow> lookup_field s parent a \<noteq> None) \<Longrightarrow>
     \<exists>edges. findVirtual_attributes s source (MRef parent) attrs = Inr edges"
  by (induction attrs) (auto simp: model_field_def split: option.splits)

lemma parseInclude_findVirtual:
  "parseInclude s fieldName modelName parent i = Returns i' \<Longrightarrow> kinds s' = kinds s \<Longrightarrow>
     \<exists>edges. findVirtual s' source i' (MRef parent) = Inr edges"
  "parseInclude_each s fieldName modelName parent incs = Returns incs' \<Longrightarrow> kinds s' = kinds s \<Longrightarrow>
     \<exists>edges. findVirtual_each s' source incs' = Inr edges"
proof (induction s fieldName modelName parent i and s fieldName modelName parent incs
       arbitrary: i' and incs'
       rule: parseInclude_parseInclude_each.induct)
  case (1 s fieldName modelName parent m a attrs inc v)
  note same = "1.prems"(2)
  show ?case
  proof (cases attrs)
    case None
    show ?thesis
    proof (cases inc)
      case inc: None
      with None "1.prems"(1) show ?thesis by auto
    next
      case inc: (Some incs)
      with None "1.prems"(1) obtain incs' where
        each: "parseInclude_each s fieldName modelName parent incs = Returns incs'"
        and i': "i' = Item m a (Some []) (Some incs') v"
        by (auto split: outcome.splits)
      from "1.IH"(1) [OF None inc each same] obtain below where
        "findVirtual_each s' source incs' = Inr below" by blast
      with i' show ?thesis by simp
    qed
  next
    case (Some as)
    with "1.prems"(1) have checked: "check_attributes s fieldName modelName parent as = None"
      by (auto split: option.splits)
    have "lookup_field s' parent x \<noteq> None" if "x \<in> set as" for x
      using check_attributes_None [OF checked that] exists_kinds [OF same, of parent x] by simp
    from findVirtual_attributes_exist [of as s' parent source, OF this] obtain own where
      own: "findVirtual_attributes s' source (MRef parent) as = Inr own" by blast
    show ?thesis
    proof (cases inc)
      case inc: None
      with Some checked "1.prems"(1) own show ?thesis by auto
    next
      case inc: (Some incs)
      with Some checked "1.prems"(1) obtain incs' where
        each: "parseInclude_each s fieldName modelName parent incs = Returns incs'"
        and i': "i' = Item m a (Some as) (Some incs') v"
        by (auto split: outcome.splits)
      from "1.IH"(2) [OF Some checked inc each same] obtain below where
        "findVirtual_each s' source incs' = Inr below" by blast
      with i' own show ?thesis by simp
    qed
  qed
next
  case (2 s fieldName modelName parent)
  then show ?case by auto
next
  case (3 s fieldName modelName parent m a attrs inc v rest)
  note same = "3.prems"(2)
  from "3.prems"(1) obtain m' inc1 rest' where
    clause: "parseClause s Include modelName fieldName parent m a = Returns m'"
    and first: "parseInclude s fieldName modelName (model_name m') (Item m' a attrs inc v) = Returns inc1"
    and others: "parseInclude_each s fieldName modelName parent rest = Returns rest'"
    and incs': "incs' = inc1 # rest'"
    by (auto split: outcome.splits)
  have m': "m' = MRef (model_name m')"
    using parseClause_Returns [OF clause] by (simp add: model_name_def)
  have "model_of inc1 = m'" using parseInclude_model_of [OF first] by simp
  with m' have model: "model_of inc1 = MRef (model_name m')" by simp
  from "3.IH"(1) [OF clause first same] obtain e1 where
    "findVirtual s' source inc1 (MRef (model_name m')) = Inr e1" by blast
  moreover from "3.IH"(2) [OF clause first others same] obtain e2 where
    "findVirtual_each s' source rest' = Inr e2" by blast
  ultimately show ?case using incs' model by simp
qed

lemma parseField_ftype:
  "parseField s f fieldName modelName = r \<Longrightarrow> ftype (state_of r) = ftype f"
  by (auto simp: parseField_def state_of_def split: outcome.splits)

lemma parseField_clauses:
  "parseField s f fieldName modelName = Returns f' \<Longrightarrow>
     parseInclude s fieldName modelName modelName (clauses f) = Returns (clauses f')"
  by (auto simp: parseField_def split: outcome.splits)

lemma parseField_order:
  "parseField s f fieldName modelName = Returns f' \<Longrightarrow>
     parseOrder s fieldName modelName (order_of f) = Returns (order_of f')"
  by (auto simp: parseField_def split: outcome.splits)

lemma map_of_set_field:
  "n \<noteq> modelName \<Longrightarrow> map_of (set_field s modelName k f) n = map_of s n"
  by (simp add: set_field_def update_conv' split: option.splits)

lemma lookup_field_set_field_other:
  "n \<noteq> modelName \<or> k' \<noteq> k \<Longrightarrow>
     lookup_field (set_field s modelName k f) n k' = lookup_field s n k'"
  by (auto simp: lookup_field_def set_field_def update_conv' split: option.splits)

lemma lookup_field_set_field_same:
  "map_of s modelName \<noteq> None \<Longrightarrow> lookup_field (set_field s modelName k f) modelName k = Some f"
  by (auto simp: lookup_field_def set_field_def update_conv' split: option.splits)

lemma parse_fields_invariant:
  assumes "parse_fields s modelName fs = Returns s'"
    and "distinct (map fst fs)"
    and "\<And>k f. (k, f) \<in> set fs \<Longrightarrow> lookup_field s modelName k = Some f"
  shows "kinds s' = kinds s
    \<and> (\<forall>n. n \<noteq> modelName \<longrightarrow> map_of s' n = map_of s n)
    \<and> (\<forall>k. k \<notin> fst ` set fs \<longrightarrow> lookup_field s' modelName k = lookup_field s modelName k)
    \<and> (\<forall>(k, f) \<in> set fs. parsed_from s modelName k f (lookup_field s' modelName k))"
  using assms
proof (induction fs arbitrary: s)
  case Nil
  then show ?case by simp
next
  case (Cons kf fs)
  obtain k f where kf: "kf = (k, f)" by (cases kf)
  have here: "lookup_field s modelName k = Some f" using Cons.prems(3) [of k f] kf by simp
  then have model: "map_of s modelName \<noteq> None" by (auto simp: lookup_field_def split: option.splits)
  have fresh: "k \<notin> fst ` set fs" using Cons.prems(2) kf by auto
  show ?case
  proof (cases "ftype f = VIRTUAL")
    case False
    with Cons.prems(1) kf have run: "parse_fields s modelName fs = Returns s'" by simp
    have IH: "kinds s' = kinds s
      \<and> (\<forall>n. n \<noteq> modelName \<longrightarrow> map_of s' n = map_of s n)
      \<and> (\<forall>k. k \<notin> fst ` set fs \<longrightarrow> lookup_field s' modelName k = lookup_field s modelName k)
      \<and> (\<forall>(k, f) \<in> set fs. parsed_from s modelName k f (lookup_field s' modelName k))"
      using Cons.prems(2,3) by (intro Cons.IH [OF run]) auto
    then have "lookup_field s' modelName k = Some f" using fresh here by simp
    then have "parsed_from s modelName k f (lookup_field s' modelName k)"
      using False by (simp add: parsed_from_def)
    with IH show ?thesis
      by (simp add: kf)
  next
    case True
    with Cons.prems(1) kf obtain f' where
      parsed: "parseField s f k modelName = Returns f'"
      and run: "parse_fields (set_field s modelName k f') modelName fs = Returns s'"
      by (auto split: outcome.splits)
    let ?s1 = "set_field s modelName k f'"
    have ftype: "ftype f' = ftype f"
      using parseField_ftype [OF parsed] by (simp add: state_of_def)
    have kinds1: "kinds ?s1 = kinds s" by (rule kinds_set_field [OF here ftype])
    have rest: "lookup_field ?s1 modelName k' = Some g" if "(k', g) \<in> set fs" for k' g
    proof -
      from that fresh have "k' \<noteq> k" by force
      then show ?thesis
        using Cons.prems(3) [of k' g] that by (simp add: lookup_field_set_field_other)
    qed
    have IH: "kinds s' = kinds ?s1
      \<and> (\<forall>n. n \<noteq> modelName \<longrightarrow> map_of s' n = map_of ?s1 n)
      \<and> (\<forall>k. k \<notin> fst ` set fs \<longrightarrow> lookup_field s' modelName k = lookup_field ?s1 modelName k)
      \<and> (\<forall>(k, f) \<in> set fs. parsed_from ?s1 modelName k f (lookup_field s' modelName k))"
      using Cons.prems(2) rest by (intro Cons.IH [OF run]) auto
    have 1: "kinds s' = kinds s" using IH kinds1 by simp
    have 2: "\<forall>n. n \<noteq> modelName \<longrightarrow> map_of s' n = map_of s n"
      using IH by (simp add: map_of_set_field)
    have 3: "\<forall>k'. k' \<notin> fst ` set (kf # fs) \<longrightarrow>
               lookup_field s' modelName k' = lookup_field s modelName k'"
      using IH by (simp add: kf lookup_field_set_field_other)
    have "lookup_field s' modelName k = Some f'"
      using IH fresh lookup_field_set_field_same [OF model] by simp
    then have 4: "parsed_from s modelName k f (lookup_field s' modelName k)"
      using True parsed by (auto simp: parsed_from_def)
    have 5: "\<forall>(k, f) \<in> set fs. parsed_from s modelName k f (lookup_field s' modelName k)"
      using IH kinds1 by (auto simp: parsed_from_def)
    from 1 2 3 4 5 show ?thesis by (simp add: kf)
  qed
qed

lemma parsed_from_kinds:
  "kinds s1 = kinds s \<Longrightarrow> parsed_from s1 n k f got = parsed_from s n k f got"
  by (simp add: parsed_from_def)

lemma parse_models_invariant:
  assumes "parse_models s ms = Returns s'"
    and "distinct (map fst ms)"
    and "\<And>n m. (n, m) \<in> set ms \<Longrightarrow> map_of s n = Some m \<and> distinct (map fst (attributes m))"
  shows "kinds s' = kinds s
    \<and> (\<forall>n. n \<notin> fst ` set ms \<longrightarrow> map_of s' n = map_of s n)
    \<and> (\<forall>(n, m) \<in> set ms. \<forall>(k, f) \<in> set (attributes m).
          parsed_from s n k f (lookup_field s' n k))"
  using assms
proof (induction ms arbitrary: s)
  case Nil
  then show ?case by simp
next
  case (Cons nm ms)
  obtain n m where nm: "nm = (n, m)" by (cases nm)
  from Cons.prems(1) nm obtain s1 where
    fields: "parse_fields s n (attributes m) = Returns s1"
    and run: "parse_models s1 ms = Returns s'"
    by (auto split: outcome.splits)
  have model: "map_of s n = Some m" and keys: "distinct (map fst (attributes m))"
    using Cons.prems(3) [of n m] nm by simp_all
  have fresh: "n \<notin> fst ` set ms" using Cons.prems(2) nm by auto
  have "lookup_field s n k = Some f" if "(k, f) \<in> set (attributes m)" for k f
    using that keys model by (simp add: lookup_field_def)
  from parse_fields_invariant [OF fields keys this]
  have kinds1: "kinds s1 = kinds s"
    and others: "\<And>n'. n' \<noteq> n \<Longrightarrow> map_of s1 n' = map_of s n'"
    and here: "\<forall>(k, f) \<in> set (attributes m). parsed_from s n k f (lookup_field s1 n k)"
    by simp_all
  have pre: "map_of s1 n' = Some m' \<and> distinct (map fst (attributes m'))"
    if "(n', m') \<in> set ms" for n' m'
  proof -
    from that fresh have "n' \<noteq> n" by force
    with others [of n'] Cons.prems(3) [of n' m'] that show ?thesis by simp
  qed
  have IH: "kinds s' = kinds s1
    \<and> (\<forall>n. n \<notin> fst ` set ms \<longrightarrow> map_of s' n = map_of s1 n)
    \<and> (\<forall>(n, m) \<in> set ms. \<forall>(k, f) \<in> set (attributes m).
          parsed_from s1 n k f (lookup_field s' n k))"
    using Cons.prems(2) pre by (intro Cons.IH [OF run]) auto
  have 1: "kinds s' = kinds s" using IH kinds1 by simp
  have 2: "\<forall>n'. n' \<notin> fst ` set (nm # ms) \<longrightarrow> map_of s' n' = map_of s n'"
    using IH others by (simp add: nm)
  have "map_of s' n = map_of s1 n" using IH fresh by simp
  then have "lookup_field s' n k = lookup_field s1 n k" for k
    by (simp add: lookup_field_def)
  with here have 3: "\<forall>(k, f) \<in> set (attributes m). parsed_from s n k f (lookup_field s' n k)"
    by simp
  have 4: "\<forall>(n, m) \<in> set ms. \<forall>(k, f) \<in> set (attributes m).
          parsed_from s n k f (lookup_field s' n k)"
    using IH by (simp add: parsed_from_kinds [OF kinds1])
  from 1 2 3 4 show ?case by (simp add: nm)
qed

lemma kinds_keys: "map fst (kinds s) = map fst s"
  by (simp add: kinds_def case_prod_unfold comp_def)

lemma kinds_fields:
  assumes "kinds s' = kinds s" and "distinct (map fst s)"
    and "(n, m') \<in> set s'"
  shows "\<exists>m. (n, m) \<in> set s
    \<and> map (\<lambda>(k, f). (k, ftype f)) (attributes m') = map (\<lambda>(k, f). (k, ftype f)) (attributes m)"
proof -
  from assms(3) have "(n, map (\<lambda>(k, f). (k, ftype f)) (attributes m')) \<in> set (kinds s')"
    by (force simp: kinds_def)
  then have "(n, map (\<lambda>(k, f). (k, ftype f)) (attributes m')) \<in> set (kinds s)"
    using assms(1) by simp
  then show ?thesis by (auto simp: kinds_def)
qed

lemma parse_all_fields:
  assumes unique: "unique_names s" and parsed: "parse_all s = Returns parsed"
    and model: "(n, m') \<in> set parsed" and field: "(k, f') \<in> set (attributes m')"
    and virtual: "ftype f' = VIRTUAL"
  shows "\<exists>s0 f. kinds s0 = kinds parsed \<and> parseField s0 f k n = Returns f'"
proof -
  have keys: "distinct (map fst s)"
    and fields: "\<And>n m. (n, m) \<in> set s \<Longrightarrow> distinct (map fst (attributes m))"
    using unique by (auto simp: unique_names_def list_all_iff)
  have "map_of s n = Some m \<and> distinct (map fst (attributes m))" if "(n, m) \<in> set s" for n m
    using that keys fields by simp
  from parse_models_invariant [OF parsed [unfolded parse_all_def] keys this]
  have same: "kinds parsed = kinds s"
    and inv: "\<And>n m k f. (n, m) \<in> set s \<Longrightarrow> (k, f) \<in> set (attributes m) \<Longrightarrow>
                parsed_from s n k f (lookup_field parsed n k)"
    by auto
  have "map fst parsed = map fst s"
    using same kinds_keys [of parsed] kinds_keys [of s] by simp
  with keys have keys': "distinct (map fst parsed)" by simp
  from kinds_fields [OF same keys model] obtain m where
    m: "(n, m) \<in> set s"
    and shape: "map (\<lambda>(k, f). (k, ftype f)) (attributes m') = map (\<lambda>(k, f). (k, ftype f)) (attributes m)"
    by blast
  from shape have "map fst (map (\<lambda>(k, f). (k, ftype f)) (attributes m'))
      = map fst (map (\<lambda>(k, f). (k, ftype f)) (attributes m))" by simp
  then have names: "map fst (attributes m') = map fst (attributes m)"
    by (simp add: case_prod_unfold comp_def)
  with fields [OF m] have "distinct (map fst (attributes m'))" by simp
  with field keys' model have found: "lookup_field parsed n k = Some f'"
    by (simp add: lookup_field_def)
  from field have "k \<in> set (map fst (attributes m'))" by force
  with names obtain f where f: "(k, f) \<in> set (attributes m)" by auto
  from inv [OF m f] found have origin: "parsed_from s n k f (Some f')" by simp
  show ?thesis
  proof (cases "ftype f = VIRTUAL")
    case True
    with origin same show ?thesis by (auto simp: parsed_from_def)
  next
    case False
    with origin virtual show ?thesis by (simp add: parsed_from_def)
  qed
qed

lemma gather_all:
  "(\<And>x. x \<in> set xs \<Longrightarrow> \<exists>ys. f x = Inr ys) \<Longrightarrow> \<exists>ys. gather f xs = Inr ys"
proof (induction xs)
  case Nil
  show ?case by simp
next
  case (Cons x xs)
  from Cons.prems [of x] obtain a where "f x = Inr a" by auto
  moreover from Cons.IH Cons.prems obtain b where "gather f xs = Inr b" by auto
  ultimately show ?case by simp
qed

lemma parsed_attribute_dependencies:
  assumes "unique_names s" and "parse_all s = Returns parsed"
  shows "attribute_dependencies parsed = Inr (spec_attribute_edges parsed)"
proof -
  have "\<exists>deps. attribute_dependencies parsed = Inr deps"
    unfolding attribute_dependencies_def
  proof (rule gather_all, goal_cases)
    case (1 x)
    obtain n m' where x: "x = (n, m')" by (cases x)
    have "\<exists>ys. gather (\<lambda>(fieldName, f).
           if ftype f \<noteq> VIRTUAL then Inr []
           else findVirtual parsed (n, fieldName) (clauses f) (MRef n)) (attributes m') = Inr ys"
    proof (rule gather_all, goal_cases)
      case (1 y)
      obtain k f' where y: "y = (k, f')" by (cases y)
      show ?case
      proof (cases "ftype f' = VIRTUAL")
        case False
        then show ?thesis by (simp add: y)
      next
        case True
        from parse_all_fields [OF assms _ _ True, of n m' k] \<open>x \<in> set parsed\<close> 1 x y
        obtain s0 f where s0: "kinds s0 = kinds parsed"
          and f: "parseField s0 f k n = Returns f'"
          by auto
        from parseInclude_findVirtual(1) [OF parseField_clauses [OF f], of parsed "(n, k)"] s0
        show ?thesis using True by (simp add: y)
      qed
    qed
    then show ?case by (simp add: x)
  qed
  then show ?thesis using attribute_dependencies_spec by blast
qed

subsection \<open>The edges of the order clauses\<close>

lemma structured_target:
  assumes "structured order"
  shows "\<exists>entity name. spec_terminal modelName order = Some (entity, name)
     \<and> order_target s modelName order
         = map_option (\<lambda>f. (entity, name, f)) (model_field s entity name)"
proof (cases order)
  case (ArrOrder elems)
  with assms obtain name where len: "length elems \<ge> 2"
    and name: "elems ! (length elems - 2) = OStr name"
    by (auto simp: structured_def split: oelem.splits)
  show ?thesis
  proof (cases "length elems = 2")
    case True
    with ArrOrder name show ?thesis
      by (simp add: spec_terminal_def order_target_def property_key_def Let_def)
  next
    case False
    with len have "length elems > 2" by simp
    with ArrOrder name False show ?thesis
      by (simp add: spec_terminal_def order_target_def property_key_def Let_def)
  qed
qed (use assms in \<open>simp_all add: structured_def\<close>)

lemma order_edge_spec:
  assumes "structured order" and "order_edge s modelName fieldName order = Inr es"
  shows "es = spec_order_edge s modelName fieldName order"
proof -
  from structured_target [OF assms(1), of modelName s] obtain entity name where
    terminal: "spec_terminal modelName order = Some (entity, name)"
    and target: "order_target s modelName order
         = map_option (\<lambda>f. (entity, name, f)) (model_field s entity name)"
    by blast
  show ?thesis
  proof (cases "model_field s entity name")
    case None
    with assms(2) target show ?thesis by (simp add: order_edge_def)
  next
    case (Some f)
    with assms(2) target terminal show ?thesis
      by (auto simp: order_edge_def spec_order_edge_def is_derived_def)
  qed
qed

lemma structured_ordersD:
  "structured_orders s \<Longrightarrow> (n, m) \<in> set s \<Longrightarrow> (k, f) \<in> set (attributes m) \<Longrightarrow>
     ftype f = VIRTUAL \<Longrightarrow> order_of f = Some orders \<Longrightarrow> list_all structured orders"
  by (fastforce simp: structured_orders_def list_all_iff)

lemma order_dependencies_edges:
  "order_dependencies s =
     gather (\<lambda>(modelName, m).
        gather (\<lambda>(fieldName, f).
           if ftype f \<noteq> VIRTUAL then Inr []
           else (case order_of f of None \<Rightarrow> Inr []
                 | Some orders \<Rightarrow> gather (order_edge s modelName fieldName) orders))
         (attributes m)) s"
  unfolding order_dependencies_def order_edge_def [abs_def] by (rule refl)

lemma order_dependencies_spec:
  assumes "structured_orders s" and "order_dependencies s = Inr odeps"
  shows "odeps = spec_order_edges s"
  unfolding spec_order_edges_def
proof (rule gather_concat [OF assms(2) [unfolded order_dependencies_edges]], goal_cases)
  case (1 x zs)
  obtain modelName m where x: "x = (modelName, m)" by (cases x)
  from 1(2) have inner: "gather (\<lambda>(fieldName, f).
           if ftype f \<noteq> VIRTUAL then Inr []
           else (case order_of f of None \<Rightarrow> Inr []
                 | Some orders \<Rightarrow> gather (order_edge s modelName fieldName) orders))
         (attributes m) = Inr zs"
    by (simp add: x)
  have "zs = concat (map (\<lambda>(fieldName, f).
           if ftype f = VIRTUAL
           then concat (map (spec_order_edge s modelName fieldName)
                  (case order_of f of None \<Rightarrow> [] | Some orders \<Rightarrow> orders))
           else []) (attributes m))"
  proof (rule gather_concat [OF inner], goal_cases)
    case (1 y ws)
    obtain fieldName f where y: "y = (fieldName, f)" by (cases y)
    show ?case
    proof (cases "ftype f = VIRTUAL")
      case False
      with 1(2) show ?thesis by (simp add: y)
    next
      case True
      show ?thesis
      proof (cases "order_of f")
        case None
        with True 1(2) show ?thesis by (simp add: y)
      next
        case (Some orders)
        have all: "list_all structured orders"
          using assms(1) \<open>x \<in> set s\<close> 1(1) True Some
          by (intro structured_ordersD [of s modelName m fieldName f]) (simp_all add: x y)
        from 1(2) True Some have run: "gather (order_edge s modelName fieldName) orders = Inr ws"
          by (simp add: y)
        have "ws = concat (map (spec_order_edge s modelName fieldName) orders)"
        proof (rule gather_concat [OF run], goal_cases)
          case (1 order es)
          with all show ?case by (intro order_edge_spec) (auto simp: list_all_iff)
        qed
        with True Some show ?thesis by (simp add: y)
      qed
    qed
  qed
  then show ?case by (simp add: x)
qed

lemma parseOrder_direction_length:
  assumes "parseOrder_direction modelName fieldName order = Inr order'"
  shows "length order' \<ge> 2"
proof (cases "length order = 0 \<or> length order = 1")
  case True
  with assms show ?thesis by (auto simp: parseOrder_direction_def split: if_splits)
next
  case False
  then have "length order \<ge> 2" by arith
  moreover from False assms have "length order' = length order + 1 \<or> length order' = length order"
    by (auto simp: parseOrder_direction_def split: if_splits oelem.splits)
  ultimately show ?thesis by arith
qed

lemma parseOrder_path_Returns:
  "parseOrder_path s modelName fieldName parent xs = Returns (xs', parent') \<Longrightarrow>
     length xs' = length xs
     \<and> (xs = [] \<longrightarrow> parent' = parent)
     \<and> (xs \<noteq> [] \<longrightarrow> (\<exists>a. last xs' = OSeg (MRef parent') a))"
proof (induction s modelName fieldName parent xs arbitrary: xs' parent'
       rule: parseOrder_path.induct)
  case (1 s modelName fieldName parent)
  then show ?case by simp
next
  case (2 s modelName fieldName parent r rest)
  then show ?case by simp
next
  case (3 s modelName fieldName parent n rest)
  from "3.prems" obtain m' rest' where
    clause: "parseClause s Order modelName fieldName parent (MName n) None = Returns m'"
    and path: "parseOrder_path s modelName fieldName (model_name m') rest = Returns (rest', parent')"
    and xs': "xs' = OSeg m' None # rest'"
    by (auto split: outcome.splits prod.splits)
  have m': "m' = MRef (model_name m')"
    using parseClause_Returns [OF clause] by (simp add: model_name_def)
  from "3.IH" [OF clause path] have IH: "length rest' = length rest"
    "rest = [] \<longrightarrow> parent' = model_name m'"
    "rest \<noteq> [] \<longrightarrow> (\<exists>a. last rest' = OSeg (MRef parent') a)"
    by simp_all
  show ?case
  proof (cases rest)
    case Nil
    with IH xs' m' show ?thesis by auto
  next
    case (Cons y ys)
    with IH xs' show ?thesis by (cases rest') auto
  qed
next
  case (4 s modelName fieldName parent m a rest)
  from "4.prems" obtain m' rest' where
    clause: "parseClause s Order modelName fieldName parent m a = Returns m'"
    and path: "parseOrder_path s modelName fieldName (model_name m') rest = Returns (rest', parent')"
    and xs': "xs' = OSeg m' a # rest'"
    by (auto split: outcome.splits prod.splits)
  have m': "m' = MRef (model_name m')"
    using parseClause_Returns [OF clause] by (simp add: model_name_def)
  from "4.IH" [OF clause path] have IH: "length rest' = length rest"
    "rest = [] \<longrightarrow> parent' = model_name m'"
    "rest \<noteq> [] \<longrightarrow> (\<exists>a. last rest' = OSeg (MRef parent') a)"
    by simp_all
  show ?case
  proof (cases rest)
    case Nil
    with IH xs' m' show ?thesis by auto
  next
    case (Cons y ys)
    with IH xs' show ?thesis by (cases rest') auto
  qed
qed

lemma structured_ArrOrder:
  "structured (ArrOrder elems) \<Longrightarrow> \<exists>name. elems ! (length elems - 2) = OStr name"
  by (auto simp: structured_def split: oelem.splits)

lemma parseOrder_array_target:
  assumes "parseOrder_array s modelName fieldName elems = Returns r"
    and "kinds s' = kinds s" and "structured r"
  shows "order_target s' modelName r \<noteq> None"
proof -
  from assms(1) obtain order' where
    direction: "parseOrder_direction modelName fieldName elems = Inr order'"
    by (auto simp: parseOrder_array_def split: sum.splits)
  let ?n = "length order'"
  have n: "?n \<ge> 2" by (rule parseOrder_direction_length [OF direction])
  from assms(1) direction obtain path parent where
    path: "parseOrder_path s modelName fieldName modelName (take (?n - 2) order')
             = Returns (path, parent)"
    by (auto simp: parseOrder_array_def split: outcome.splits prod.splits)
  from assms(1) direction path have r: "r = ArrOrder (path @ drop (?n - 2) order')"
    by (auto simp: parseOrder_array_def split: oelem.splits if_splits)
  from parseOrder_path_Returns [OF path] n have
    len: "length path = ?n - 2"
    and empty: "?n = 2 \<longrightarrow> parent = modelName"
    and last: "?n > 2 \<longrightarrow> (\<exists>a. last path = OSeg (MRef parent) a)"
    by auto
  let ?elems = "path @ drop (?n - 2) order'"
  have total: "length ?elems = ?n" using len n by simp
  have at: "?elems ! (?n - 2) = order' ! (?n - 2)"
    using len n by (simp add: nth_append)
  from structured_ArrOrder [OF assms(3) [unfolded r]] obtain name where
    "?elems ! (length ?elems - 2) = OStr name" by blast
  then have name: "order' ! (?n - 2) = OStr name" by (simp only: total at)
  with assms(1) direction path have "lookup_field s parent name \<noteq> None"
    by (auto simp: parseOrder_array_def split: if_splits)
  then have found: "lookup_field s' parent name \<noteq> None"
    using exists_kinds [OF assms(2), of parent name] by simp
  show ?thesis
  proof (cases "?n = 2")
    case True
    with empty have "parent = modelName" by simp
    with found r total at name True show ?thesis
      by (simp add: order_target_def Let_def property_key_def model_field_def)
  next
    case False
    with n have big: "?n > 2" by simp
    with last obtain a where a: "last path = OSeg (MRef parent) a" by blast
    from big len have "path \<noteq> []" by auto
    moreover have "length path - 1 = ?n - 3" using len big by arith
    ultimately have "path ! (?n - 3) = last path"
      by (simp add: last_conv_nth)
    moreover have "?n - 3 < length path" using len big by arith
    ultimately have "?elems ! (?n - 3) = OSeg (MRef parent) a"
      using a by (simp add: nth_append)
    with found r total at name big show ?thesis
      by (simp add: order_target_def Let_def property_key_def model_field_def)
  qed
qed

lemma parseOrder_entry_target:
  assumes "parseOrder_entry s modelName fieldName order = Returns r"
    and "kinds s' = kinds s" and "structured r"
  shows "order_target s' modelName r \<noteq> None"
proof (cases order)
  case (RawOrder str)
  with assms(1,3) show ?thesis by (auto simp: parseOrder_entry_def structured_def)
next
  case (ObjOrder x)
  with assms(1) have "parseOrder_array s modelName fieldName [ORaw x, OStr ''ASC''] = Returns r"
    by (simp add: parseOrder_entry_def)
  then show ?thesis using assms(2,3) by (rule parseOrder_array_target)
next
  case (ArrOrder elems)
  with assms(1) have "parseOrder_array s modelName fieldName elems = Returns r"
    by (simp add: parseOrder_entry_def)
  then show ?thesis using assms(2,3) by (rule parseOrder_array_target)
qed

lemma parseOrder_each_target:
  "parseOrder_each s modelName fieldName orders = Returns orders' \<Longrightarrow> kinds s' = kinds s \<Longrightarrow>
     r \<in> set orders' \<Longrightarrow> structured r \<Longrightarrow> order_target s' modelName r \<noteq> None"
proof (induction orders arbitrary: orders')
  case Nil
  then show ?case by simp
next
  case (Cons order orders)
  from Cons.prems(1) obtain first rest where
    first: "parseOrder_entry s modelName fieldName order = Returns first"
    and rest: "parseOrder_each s modelName fieldName orders = Returns rest"
    and orders': "orders' = first # rest"
    by (auto split: outcome.splits)
  from Cons.prems(3) orders' consider "r = first" | "r \<in> set rest" by auto
  then show ?case
  proof cases
    case 1
    with parseOrder_entry_target [OF first Cons.prems(2)] Cons.prems(4) show ?thesis by simp
  next
    case 2
    with Cons.IH [OF rest Cons.prems(2)] Cons.prems(4) show ?thesis by simp
  qed
qed

lemma parsed_order_dependencies:
  assumes "unique_names s" and "parse_all s = Returns parsed" and "structured_orders parsed"
  shows "order_dependencies parsed = Inr (spec_order_edges parsed)"
proof -
  have "\<exists>odeps. order_dependencies parsed = Inr odeps"
    unfolding order_dependencies_def
  proof (rule gather_all, goal_cases)
    case (1 x)
    obtain n m' where x: "x = (n, m')" by (cases x)
    have "\<exists>ys. gather (\<lambda>(fieldName, f).
           if ftype f \<noteq> VIRTUAL then Inr []
           else
             (case order_of f of
                None \<Rightarrow> Inr []
              | Some orders \<Rightarrow>
                  gather (\<lambda>order.
                     (case order_target parsed n order of
                        None \<Rightarrow> Inl TypeError
                      | Some (orderModel, orderFieldName, orderField) \<Rightarrow>
                          Inr (if ftype orderField = VIRTUAL
                               then [((n, fieldName),
                                      (model_name orderModel, orderFieldName))]
                               else []))) orders))
         (attributes m') = Inr ys"
    proof (rule gather_all, goal_cases)
      case (1 y)
      obtain k f' where y: "y = (k, f')" by (cases y)
      show ?case
      proof (cases "ftype f' = VIRTUAL")
        case False
        then show ?thesis by (simp add: y)
      next
        case True
        show ?thesis
        proof (cases "order_of f'")
          case None
          with True show ?thesis by (simp add: y)
        next
          case (Some orders')
          from parse_all_fields [OF assms(1,2) _ _ True, of n m' k] \<open>x \<in> set parsed\<close> 1 x y
          obtain s0 f where s0: "kinds s0 = kinds parsed"
            and f: "parseField s0 f k n = Returns f'"
            by auto
          from parseField_order [OF f] Some obtain orders where
            each: "parseOrder_each s0 n k orders = Returns orders'"
            by (auto simp: parseOrder_def split: option.splits outcome.splits)
          have all: "list_all structured orders'"
            using assms(3) \<open>x \<in> set parsed\<close> 1 True Some
            by (intro structured_ordersD [of parsed n m' k f']) (simp_all add: x y)
          have "\<exists>ys. gather (\<lambda>order.
                     (case order_target parsed n order of
                        None \<Rightarrow> Inl TypeError
                      | Some (orderModel, orderFieldName, orderField) \<Rightarrow>
                          Inr (if ftype orderField = VIRTUAL
                               then [((n, k), (model_name orderModel, orderFieldName))]
                               else []))) orders' = Inr ys"
          proof (rule gather_all, goal_cases)
            case (1 r)
            with all have "structured r" by (simp add: list_all_iff)
            from parseOrder_each_target [OF each _ 1 this, of parsed] s0
            show ?case by (auto split: option.splits)
          qed
          with True Some show ?thesis by (simp add: y)
        qed
      qed
    qed
    then show ?case by (simp add: x)
  qed
  then show ?thesis using order_dependencies_spec [OF assms(3)] by blast
qed

lemma cycle_two: "(a, b) \<in> set edges \<Longrightarrow> (b, a) \<in> set edges \<Longrightarrow> (a, a) \<in> (set edges)\<^sup>+"
  by (rule trancl_into_trancl [where b = b]) auto

text \<open>
  Claim C3, as stated, at a concrete registry. \<open>A\<close> reads the virtual field \<open>B\<close> as an
  attribute, and \<open>B\<close> is ordered by the virtual field \<open>A\<close>: the graph of both kinds of
  reference has the cycle \<open>A\<close>, \<open>B\<close>, \<open>A\<close>. Each pass sorts the edges of its own kind only,
  neither finds a cycle, and initialisation returns.
\<close>

theorem mixed_cycle_counterexample:
  "parse_all mixed = Returns mixed_parsed
   \<and> attribute_dependencies mixed_parsed = Inr [((''T'', ''A''), (''T'', ''B''))]
   \<and> inheritInclude mixed_parsed = Some (Returns mixed_merged)
   \<and> order_dependencies mixed_parsed = Inr [((''T'', ''B''), (''T'', ''A''))]
   \<and> order_dependencies mixed_merged = Inr [((''T'', ''B''), (''T'', ''A''))]
   \<and> ((''T'', ''A''), (''T'', ''A''))
        \<in> (set [((''T'', ''A''), (''T'', ''B'')), ((''T'', ''B''), (''T'', ''A''))])\<^sup>+
   \<and> initVirtualFields mixed = Some (Returns mixed_closed)"
proof -
  have 1: "parse_all mixed = Returns mixed_parsed" by code_simp
  have 2: "attribute_dependencies mixed_parsed = Inr [((''T'', ''A''), (''T'', ''B''))]"
    by code_simp
  have 3: "inheritInclude mixed_parsed = Some (Returns mixed_merged)" by code_simp
  have 4: "order_dependencies mixed_parsed = Inr [((''T'', ''B''), (''T'', ''A''))]"
    by code_simp
  have 5: "order_dependencies mixed_merged = Inr [((''T'', ''B''), (''T'', ''A''))]"
    by code_simp
  have 6: "((''T'', ''A''), (''T'', ''A''))
        \<in> (set [((''T'', ''A''), (''T'', ''B'')), ((''T'', ''B''), (''T'', ''A''))])\<^sup>+"
    by (rule trancl_into_trancl [where b = "(''T'', ''B'')"]) auto
  have 7: "initVirtualFields mixed = Some (Returns mixed_closed)" by code_simp
  from 1 2 3 4 5 6 7 show ?thesis by blast
qed

text \<open>
  Claim C3, amended. For a registry with distinct names that parses, \<open>inheritInclude\<close>
  collects exactly the attribute references of the specification, those inside joins at
  any depth included; and when all order clauses of its virtual fields are structured,
  \<open>inheritOrder\<close> collects exactly the order references of the specification. When the
  graph of attribute references has a cycle, initialisation fails with the circular
  dependency error at a field that lies on a cycle of that graph. When the attribute
  closure returns, all order clauses are structured and the graph of order references
  has a cycle, initialisation fails with the circular dependency error of the order
  clauses at a field on a cycle of that graph (the closure leaves that graph as parsing
  gave it). Initialisation fails with the first error only if the attribute graph has a
  cycle through the field named, and, the order clauses being structured, with the second
  only if the order graph has one: never on a graph without a cycle. The two graphs are
  sorted apart from one another. An order clause that is a raw string or has no field
  name before its direction is outside this statement: there \<open>inheritOrder\<close> stops with
  a \<^verbatim>\<open>TypeError\<close> while it collects the edges.
\<close>

theorem circular_dependency_detection:
  "(unique_names s \<and> parse_all s = Returns parsed \<longrightarrow>
      attribute_dependencies parsed = Inr (spec_attribute_edges parsed))
   \<and> (unique_names s \<and> parse_all s = Returns parsed \<and> structured_orders parsed \<longrightarrow>
      order_dependencies parsed = Inr (spec_order_edges parsed))
   \<and> (unique_names s \<and> parse_all s = Returns parsed
      \<and> (\<exists>c. (c, c) \<in> (set (spec_attribute_edges parsed))\<^sup>+) \<longrightarrow>
      (\<exists>c. (c, c) \<in> (set (spec_attribute_edges parsed))\<^sup>+
         \<and> initVirtualFields s = Some (Throws (CircularDependency (fst c) (snd c)) parsed)))
   \<and> (unique_names s \<and> parse_all s = Returns parsed
      \<and> inheritInclude parsed = Some (Returns merged) \<and> structured_orders parsed
      \<and> (\<exists>c. (c, c) \<in> (set (spec_order_edges parsed))\<^sup>+) \<longrightarrow>
      (\<exists>c. (c, c) \<in> (set (spec_order_edges parsed))\<^sup>+
         \<and> initVirtualFields s = Some (Throws (CircularDependencyOrder (fst c) (snd c)) merged)))
   \<and> (initVirtualFields s = Some (Throws (CircularDependency m f) s') \<longrightarrow>
        parse_all s = Returns s'
        \<and> ((m, f), (m, f)) \<in> (set (spec_attribute_edges s'))\<^sup>+)
   \<and> (initVirtualFields s = Some (Throws (CircularDependencyOrder m f) s')
      \<and> parse_all s = Returns parsed \<and> structured_orders parsed \<longrightarrow>
        inheritInclude parsed = Some (Returns s')
        \<and> ((m, f), (m, f)) \<in> (set (spec_order_edges parsed))\<^sup>+)
   \<and> (inheritInclude parsed = Some (Returns merged) \<longrightarrow>
        order_dependencies merged = order_dependencies parsed)"
proof -
  have stable: "order_dependencies merged = order_dependencies parsed"
    if "inheritInclude parsed = Some (Returns merged)" for parsed merged
    using inheritInclude_order_dependencies [OF that] by (simp add: state_of_def)
  have attribute_edges: "attribute_dependencies parsed = Inr (spec_attribute_edges parsed)"
    if "unique_names s" "parse_all s = Returns parsed"
    using that by (rule parsed_attribute_dependencies)
  have order_edges: "order_dependencies parsed = Inr (spec_order_edges parsed)"
    if "unique_names s" "parse_all s = Returns parsed" "structured_orders parsed"
    using that by (rule parsed_order_dependencies)
  have attribute_cycle: "\<exists>c. (c, c) \<in> (set (spec_attribute_edges parsed))\<^sup>+
         \<and> initVirtualFields s = Some (Throws (CircularDependency (fst c) (snd c)) parsed)"
    if "unique_names s" "parse_all s = Returns parsed"
      "\<exists>c. (c, c) \<in> (set (spec_attribute_edges parsed))\<^sup>+"
  proof -
    let ?deps = "spec_attribute_edges parsed"
    from that(3) obtain c where c: "toposort_dependents ?deps = Inl c"
      using toposort_dependents_cyclic(1) [of ?deps] by blast
    then have "(c, c) \<in> (set ?deps)\<^sup>+" by (rule toposort_dependents_cyclic(2))
    moreover have "initVirtualFields s
        = Some (Throws (CircularDependency (fst c) (snd c)) parsed)"
      using that(2) attribute_edges [OF that(1,2)] c
      by (simp add: initVirtualFields_def inheritInclude_def)
    ultimately show ?thesis by blast
  qed
  have order_cycle: "\<exists>c. (c, c) \<in> (set (spec_order_edges parsed))\<^sup>+
         \<and> initVirtualFields s = Some (Throws (CircularDependencyOrder (fst c) (snd c)) merged)"
    if "unique_names s" "parse_all s = Returns parsed"
      "inheritInclude parsed = Some (Returns merged)" "structured_orders parsed"
      "\<exists>c. (c, c) \<in> (set (spec_order_edges parsed))\<^sup>+"
  proof -
    let ?deps = "spec_order_edges parsed"
    from that(5) obtain c where c: "toposort_dependents ?deps = Inl c"
      using toposort_dependents_cyclic(1) [of ?deps] by blast
    then have "(c, c) \<in> (set ?deps)\<^sup>+" by (rule toposort_dependents_cyclic(2))
    moreover have "order_dependencies merged = Inr ?deps"
      using stable [OF that(3)] order_edges [OF that(1,2,4)] by simp
    then have "initVirtualFields s
        = Some (Throws (CircularDependencyOrder (fst c) (snd c)) merged)"
      using that(2,3) c by (simp add: initVirtualFields_def inheritOrder_def)
    ultimately show ?thesis by blast
  qed
  have attribute_sound: "parse_all s = Returns s'
        \<and> ((m, f), (m, f)) \<in> (set (spec_attribute_edges s'))\<^sup>+"
    if "initVirtualFields s = Some (Throws (CircularDependency m f) s')"
  proof -
    from initVirtualFields_circular [OF that] obtain deps c where
      found: "parse_all s = Returns s'" "attribute_dependencies s' = Inr deps"
      "toposort_dependents deps = Inl c" "CircularDependency m f = CircularDependency (fst c) (snd c)"
      by (auto simp: circular_def)
    then have "c = (m, f)" by (cases c) simp
    moreover have "deps = spec_attribute_edges s'"
      using found(2) by (rule attribute_dependencies_spec)
    ultimately show ?thesis
      using found(1,3) toposort_dependents_cyclic(2) [of deps c] by auto
  qed
  have order_sound: "inheritInclude parsed = Some (Returns s')
        \<and> ((m, f), (m, f)) \<in> (set (spec_order_edges parsed))\<^sup>+"
    if "initVirtualFields s = Some (Throws (CircularDependencyOrder m f) s')"
      "parse_all s = Returns parsed" "structured_orders parsed"
  proof -
    from initVirtualFields_circular [OF that(1)] obtain parsed' deps c where
      found: "parse_all s = Returns parsed'" "inheritInclude parsed' = Some (Returns s')"
      "order_dependencies s' = Inr deps"
      "toposort_dependents deps = Inl c"
      "CircularDependencyOrder m f = CircularDependencyOrder (fst c) (snd c)"
      by (auto simp: circular_def)
    then have c: "c = (m, f)" by (cases c) simp
    from found(1) that(2) have same: "parsed' = parsed" by simp
    have "order_dependencies parsed = Inr deps"
      using stable [OF found(2)] found(3) same by simp
    then have "deps = spec_order_edges parsed"
      by (rule order_dependencies_spec [OF that(3)])
    with c found(2,4) same toposort_dependents_cyclic(2) [of deps c] show ?thesis by auto
  qed
  from attribute_edges order_edges attribute_cycle order_cycle attribute_sound order_sound stable
  show ?thesis by blast
qed

theorem circular_dependency_detection_witness:
  "attribute_dependencies nested_ring_parsed
       = Inr [((''T'', ''A''), (''P'', ''X'')), ((''P'', ''X''), (''T'', ''A''))]
   \<and> (\<exists>c. (c, c) \<in> (set [((''T'', ''A''), (''P'', ''X'')), ((''P'', ''X''), (''T'', ''A''))])\<^sup>+
       \<and> initVirtualFields nested_ring
           = Some (Throws (CircularDependency (fst c) (snd c)) nested_ring_parsed))
   \<and> (\<exists>c. (c, c) \<in> (set [((''T'', ''F''), (''T'', ''F''))])\<^sup>+
       \<and> initVirtualFields selfish = Some (Throws (CircularDependency (fst c) (snd c)) selfish))
   \<and> (\<exists>c. (c, c) \<in> (set [((''T'', ''A''), (''T'', ''B'')), ((''T'', ''B''), (''T'', ''C'')),
                            ((''T'', ''C''), (''T'', ''A''))])\<^sup>+
       \<and> initVirtualFields ring = Some (Throws (CircularDependency (fst c) (snd c)) ring))
   \<and> order_dependencies order_ring
       = Inr [((''T'', ''A''), (''T'', ''B'')), ((''T'', ''B''), (''T'', ''A''))]
   \<and> (\<exists>c. (c, c) \<in> (set [((''T'', ''A''), (''T'', ''B'')), ((''T'', ''B''), (''T'', ''A''))])\<^sup>+
       \<and> initVirtualFields order_ring
           = Some (Throws (CircularDependencyOrder (fst c) (snd c)) order_ring))
   \<and> ((''T'', ''A''), (''T'', ''A''))
       \<in> (set [((''T'', ''A''), (''P'', ''X'')), ((''P'', ''X''), (''T'', ''A''))])\<^sup>+
   \<and> ((''T'', ''A''), (''T'', ''A''))
       \<in> (set [((''T'', ''A''), (''T'', ''B'')), ((''T'', ''B''), (''T'', ''A''))])\<^sup>+"
proof -
  let ?nested = "[((''T'', ''A''), (''P'', ''X'')), ((''P'', ''X''), (''T'', ''A''))]"
  let ?self = "[((''T'', ''F''), (''T'', ''F''))]"
  let ?ring = "[((''T'', ''A''), (''T'', ''B'')), ((''T'', ''B''), (''T'', ''C'')),
                ((''T'', ''C''), (''T'', ''A''))]"
  let ?pair = "[((''T'', ''A''), (''T'', ''B'')), ((''T'', ''B''), (''T'', ''A''))]"
  have nested_unique: "unique_names nested_ring" by code_simp
  have nested_parsed: "parse_all nested_ring = Returns nested_ring_parsed" by code_simp
  have nested_edges: "spec_attribute_edges nested_ring_parsed = ?nested" by code_simp
  have nested_cycle: "\<exists>c. (c, c) \<in> (set ?nested)\<^sup>+"
    by (rule exI [of _ "(''T'', ''A'')"], rule cycle_two [where b = "(''P'', ''X'')"]) simp_all
  have nested_thrown: "initVirtualFields nested_ring
      = Some (Throws (CircularDependency ''T'' ''A'') nested_ring_parsed)" by code_simp
  have self_unique: "unique_names selfish" by code_simp
  have self_parsed: "parse_all selfish = Returns selfish" by code_simp
  have self_edges: "spec_attribute_edges selfish = ?self" by code_simp
  have self_cycle: "\<exists>c. (c, c) \<in> (set ?self)\<^sup>+" by auto
  have ring_unique: "unique_names ring" by code_simp
  have ring_parsed: "parse_all ring = Returns ring" by code_simp
  have ring_edges: "spec_attribute_edges ring = ?ring" by code_simp
  have "((''T'', ''A''), (''T'', ''C'')) \<in> (set ?ring)\<^sup>+"
    by (rule trancl_into_trancl [where b = "(''T'', ''B'')"]) auto
  then have "((''T'', ''A''), (''T'', ''A'')) \<in> (set ?ring)\<^sup>+"
    by (rule trancl_into_trancl) simp
  then have ring_cycle: "\<exists>c. (c, c) \<in> (set ?ring)\<^sup>+" by blast
  have pair_unique: "unique_names order_ring" by code_simp
  have pair_parsed: "parse_all order_ring = Returns order_ring" by code_simp
  have pair_merged: "inheritInclude order_ring = Some (Returns order_ring)" by code_simp
  have pair_structured: "structured_orders order_ring" by code_simp
  have pair_edges: "spec_order_edges order_ring = ?pair" by code_simp
  have pair_cycle: "\<exists>c. (c, c) \<in> (set ?pair)\<^sup>+"
    by (rule exI [of _ "(''T'', ''A'')"], rule cycle_two [where b = "(''T'', ''B'')"]) simp_all
  have pair_thrown: "initVirtualFields order_ring
      = Some (Throws (CircularDependencyOrder ''T'' ''A'') order_ring)" by code_simp
  note nested = circular_dependency_detection
      [of nested_ring nested_ring_parsed _ "''T''" "''A''" nested_ring_parsed,
       unfolded nested_edges]
  note self = circular_dependency_detection [of selfish selfish, unfolded self_edges]
  note ring = circular_dependency_detection [of ring ring, unfolded ring_edges]
  note pair = circular_dependency_detection
      [of order_ring order_ring order_ring "''T''" "''A''" order_ring, unfolded pair_edges]
  from nested nested_unique nested_parsed
  have 1: "attribute_dependencies nested_ring_parsed = Inr ?nested" by blast
  from nested nested_unique nested_parsed nested_cycle
  have 2: "\<exists>c. (c, c) \<in> (set ?nested)\<^sup>+
       \<and> initVirtualFields nested_ring
           = Some (Throws (CircularDependency (fst c) (snd c)) nested_ring_parsed)"
    by blast
  from self self_unique self_parsed self_cycle
  have 3: "\<exists>c. (c, c) \<in> (set ?self)\<^sup>+
       \<and> initVirtualFields selfish = Some (Throws (CircularDependency (fst c) (snd c)) selfish)"
    by blast
  from ring ring_unique ring_parsed ring_cycle
  have 4: "\<exists>c. (c, c) \<in> (set ?ring)\<^sup>+
       \<and> initVirtualFields ring = Some (Throws (CircularDependency (fst c) (snd c)) ring)"
    by blast
  from pair pair_unique pair_parsed pair_structured
  have 5: "order_dependencies order_ring = Inr ?pair" by blast
  from pair pair_unique pair_parsed pair_merged pair_structured pair_cycle
  have 6: "\<exists>c. (c, c) \<in> (set ?pair)\<^sup>+
       \<and> initVirtualFields order_ring
           = Some (Throws (CircularDependencyOrder (fst c) (snd c)) order_ring)"
    by blast
  from nested nested_thrown
  have 7: "((''T'', ''A''), (''T'', ''A'')) \<in> (set ?nested)\<^sup>+" by blast
  from pair pair_thrown pair_parsed pair_structured
  have 8: "((''T'', ''A''), (''T'', ''A'')) \<in> (set ?pair)\<^sup>+" by blast
  from 1 2 3 4 5 6 7 8 show ?thesis by blast
qed

end
